theory Spec2Isabelle
  imports Complex_Main "HOL-Library.Word"
begin

section \<open>Errors and the configuration dictionary\<close>

text \<open>
  The exceptions the modelled code can raise. \<open>KeyError\<close> carries the key of the failed
  dictionary lookup, \<open>IndexError\<close> is an out-of-range subscript, \<open>ValueError\<close> is
  NumPy's refusal of a negative size or of operands whose shapes do not fit,
  \<open>QhullError\<close> is what \<open>scipy.spatial.Delaunay\<close> raises on degenerate input and
  \<open>Cv2Error\<close> is an OpenCV assertion failure. A result is \<open>Inl\<close> of the exception or
  \<open>Inr\<close> of the returned value.
\<close>

datatype error = KeyError string | IndexError | ValueError | QhullError | Cv2Error

definition bindE :: "error + 'a \<Rightarrow> ('a \<Rightarrow> error + 'b) \<Rightarrow> error + 'b" where
  "bindE m f = (case m of Inl e \<Rightarrow> Inl e | Inr v \<Rightarrow> f v)"

text \<open>
  The dictionary \<open>yaml.safe_load\<close> returns, restricted to the eight keys the program
  reads, each at the type the program uses its value at (the angles are floats; the
  radii, the centre and the image size are passed to OpenCV and to \<open>np.zeros\<close>, which
  take integers; the two counts are passed to \<open>np.linspace\<close> as \<open>num\<close>). A key that is
  absent from the file is \<open>None\<close>.
\<close>

record scanconversion_config =
  angle_min_degrees :: "real option"
  angle_max_degrees :: "real option"
  radius_start_pixels :: "int option"
  radius_end_pixels :: "int option"
  num_lines :: "int option"
  num_samples_along_lines :: "int option"
  center_coordinate_pixel :: "int list option"
  curvilinear_image_size :: "int option"

text \<open>\<open>scanconversion_config[k]\<close>: the value, or \<open>KeyError k\<close>.\<close>

definition getitem :: "string \<Rightarrow> 'a option \<Rightarrow> error + 'a" where
  "getitem k field = (case field of None \<Rightarrow> Inl (KeyError k) | Some v \<Rightarrow> Inr v)"

text \<open>
  Subscripting a sequence or the first axis of an array with a Python integer: an index
  from \<open>-len\<close> to \<open>-1\<close> counts from the end, anything outside \<open>[-len, len)\<close> raises.
\<close>

definition subscript :: "'a list \<Rightarrow> int \<Rightarrow> error + 'a" where
  "subscript xs i =
     (if 0 \<le> i \<and> i < int (length xs) then Inr (xs ! nat i)
      else if - int (length xs) \<le> i \<and> i < 0 then Inr (xs ! nat (int (length xs) + i))
      else Inl IndexError)"

text \<open>
  The configurations the specification calls valid: every key present, the centre a
  pair, \<open>radius_end_pixels > radius_start_pixels \<ge> 0\<close>,
  \<open>angle_max_degrees > angle_min_degrees\<close>, \<open>curvilinear_image_size > 0\<close>, and the two
  counts not negative.
\<close>

definition valid_config :: "scanconversion_config \<Rightarrow> bool" where
  "valid_config cfg =
     (angle_min_degrees cfg \<noteq> None \<and> angle_max_degrees cfg \<noteq> None \<and>
      radius_start_pixels cfg \<noteq> None \<and> radius_end_pixels cfg \<noteq> None \<and>
      num_lines cfg \<noteq> None \<and> num_samples_along_lines cfg \<noteq> None \<and>
      center_coordinate_pixel cfg \<noteq> None \<and> curvilinear_image_size cfg \<noteq> None \<and>
      length (the (center_coordinate_pixel cfg)) = 2 \<and>
      0 \<le> the (radius_start_pixels cfg) \<and>
      the (radius_start_pixels cfg) < the (radius_end_pixels cfg) \<and>
      the (angle_min_degrees cfg) < the (angle_max_degrees cfg) \<and>
      0 < the (curvilinear_image_size cfg) \<and>
      0 \<le> the (num_lines cfg) \<and> 0 \<le> the (num_samples_along_lines cfg))"

section \<open>NumPy operations used by the scan conversion\<close>

text \<open>
  Arrays are lists (one axis) or lists of rows (two axes) of real numbers: arithmetic is
  exact, the rounding of the 64-bit floats of the program is not modelled.
\<close>

definition deg2rad :: "real \<Rightarrow> real" where
  "deg2rad x = x * (pi / 180)"

text \<open>
  \<open>np.linspace(start, stop, num)\<close> with the default \<open>endpoint=True\<close>: \<open>num\<close> samples
  \<open>start + i * step\<close> with \<open>step = (stop - start) / (num - 1)\<close>; a single sample is
  \<open>start\<close>; a negative \<open>num\<close> raises. (NumPy then overwrites the last sample with
  \<open>stop\<close>, which in exact arithmetic is the value it already has.)
\<close>

definition linspace :: "real \<Rightarrow> real \<Rightarrow> int \<Rightarrow> error + real list" where
  "linspace start stop num =
     (if num < 0 then Inl ValueError
      else let dv = num - 1; delta = stop - start
           in Inr (map (\<lambda>i. if 0 < dv then real i * (delta / real_of_int dv) + start
                              else real i * delta + start)
                       [0..<nat num]))"

text \<open>
  \<open>np.meshgrid(a, b)\<close> with the default \<open>indexing='xy'\<close>: two arrays of shape
  \<open>(len(b), len(a))\<close>, the first repeating \<open>a\<close> in every row, the second constant
  \<open>b[i]\<close> along row \<open>i\<close>.
\<close>

definition meshgrid :: "real list \<Rightarrow> real list \<Rightarrow> real list list \<times> real list list" where
  "meshgrid a b = (replicate (length b) a, map (\<lambda>v. replicate (length a) v) b)"

section \<open>Geometry: \<open>scan_conversion_inverse\<close>\<close>

text \<open>
  The keys are read in the order of the source: the two angles, the two radii, the
  number of samples (first \<open>linspace\<close>), the number of lines (second \<open>linspace\<close>), and
  the centre once for each coordinate array.
\<close>

definition scan_conversion_inverse ::
  "scanconversion_config \<Rightarrow> error + (real list list \<times> real list list)" where
  "scan_conversion_inverse cfg =
     bindE (getitem ''angle_min_degrees'' (angle_min_degrees cfg)) (\<lambda>angle_min.
     bindE (getitem ''angle_max_degrees'' (angle_max_degrees cfg)) (\<lambda>angle_max.
     let initial_radius = deg2rad angle_min; final_radius = deg2rad angle_max in
     bindE (getitem ''radius_start_pixels'' (radius_start_pixels cfg)) (\<lambda>radius_start_px.
     bindE (getitem ''radius_end_pixels'' (radius_end_pixels cfg)) (\<lambda>radius_end_px.
     bindE (getitem ''num_samples_along_lines'' (num_samples_along_lines cfg)) (\<lambda>num_samples.
     bindE (linspace initial_radius final_radius num_samples) (\<lambda>angles.
     bindE (getitem ''num_lines'' (num_lines cfg)) (\<lambda>n_lines.
     bindE (linspace (real_of_int radius_start_px) (real_of_int radius_end_px) n_lines) (\<lambda>radii.
     let (theta, r) = meshgrid angles radii in
     bindE (getitem ''center_coordinate_pixel'' (center_coordinate_pixel cfg)) (\<lambda>center.
     bindE (subscript center 0) (\<lambda>c0.
     let x_cart = map2 (map2 (\<lambda>rv th. rv * cos th + real_of_int c0)) r theta in
     bindE (getitem ''center_coordinate_pixel'' (center_coordinate_pixel cfg)) (\<lambda>center.
     bindE (subscript center 1) (\<lambda>c1.
     let y_cart = map2 (map2 (\<lambda>rv th. rv * sin th + real_of_int c1)) r theta in
     Inr (x_cart, y_cart)))))))))))))"

text \<open>
  \<open>np.vstack((a, b)).T\<close> for two flat arrays of one length: the array of the pairs
  \<open>[a[i], b[i]]\<close>.
\<close>

definition vstack_T :: "real list \<Rightarrow> real list \<Rightarrow> real list list" where
  "vstack_T a b = map2 (\<lambda>u v. [u, v]) a b"

text \<open>
  \<open>np.mgrid[0:n, 0:n]\<close>: \<open>grid_x[i][j] = i\<close> and \<open>grid_y[i][j] = j\<close>; empty when
  \<open>n = 0\<close>, and a negative \<open>n\<close> raises (the two-axis grid is allocated with the
  negative dimension).
\<close>

definition mgrid :: "int \<Rightarrow> error + (real list list \<times> real list list)" where
  "mgrid n =
     (if n < 0 then Inl ValueError
      else Inr (map (\<lambda>i. replicate (nat n) (real i)) [0..<nat n],
                replicate (nat n) (map real [0..<nat n])))"

text \<open>A loop over an array that stops at the first exception.\<close>

fun mapE :: "('a \<Rightarrow> error + 'b) \<Rightarrow> 'a list \<Rightarrow> error + 'b list" where
  "mapE f [] = Inr []"
| "mapE f (x # xs) = bindE (f x) (\<lambda>y. bindE (mapE f xs) (\<lambda>ys. Inr (y # ys)))"

text \<open>
  \<open>np.einsum('ij,ij->i', a, b)\<close>: the dot product of each row of \<open>a\<close> with the same
  row of \<open>b\<close>. The model requires equal shapes and raises otherwise; NumPy's
  broadcasting of an axis of length one is not modelled.
\<close>

definition einsum_ij_ij :: "real list list \<Rightarrow> real list list \<Rightarrow> error + real list" where
  "einsum_ij_ij a b =
     (if map length a = map length b
      then Inr (map2 (\<lambda>u v. sum_list (map2 (*) u v)) a b)
      else Inl ValueError)"

text \<open>
  \<open>np.einsum('ijk,ik->ij', X, Y)\<close> on rectangular operands: for every \<open>i\<close>, the
  product of the matrix \<open>X[i]\<close> with the vector \<open>Y[i]\<close>.
\<close>

definition einsum_ijk_ik :: "real list list list \<Rightarrow> real list list \<Rightarrow> real list list" where
  "einsum_ijk_ik X Y = map2 (\<lambda>Xi Yi. map (\<lambda>row. sum_list (map2 (*) row Yi)) Xi) X Y"

text \<open>
  \<open>zi.reshape(r, c)\<close> of a flat array: rows of \<open>c\<close> consecutive elements; raises unless
  the sizes are non-negative and \<open>r * c\<close> is the number of elements.
\<close>

definition reshape2 :: "'a list \<Rightarrow> int \<Rightarrow> int \<Rightarrow> error + 'a list list" where
  "reshape2 xs r c =
     (if 0 \<le> r \<and> 0 \<le> c \<and> length xs = nat r * nat c
      then Inr (map (\<lambda>i. take (nat c) (drop (i * nat c) xs)) [0..<nat r])
      else Inl ValueError)"

text \<open>\<open>np.zeros((r, c))\<close> and \<open>np.ones((r, c))\<close>: a negative dimension raises.\<close>

definition np_full :: "'a \<Rightarrow> int \<Rightarrow> int \<Rightarrow> error + 'a list list" where
  "np_full v r c =
     (if r < 0 \<or> c < 0 then Inl ValueError else Inr (replicate (nat r) (replicate (nat c) v)))"

section \<open>Interpolation weights: \<open>scan_interpolation_weights\<close>\<close>

text \<open>
  The object \<open>scipy.spatial.Delaunay\<close> returns, as far as the program reads it:
  \<open>simplices\<close> (one row of point indices per triangle), \<open>transform\<close> (per triangle, the
  rows of the inverse barycentric matrix followed by the offset vector) and the point
  location \<open>find_simplex\<close>, which answers \<open>-1\<close> outside the convex hull. The
  triangulation itself is SciPy's: the functions below take the constructor as the
  parameter \<open>Delaunay\<close>.
\<close>

record triangulation =
  simplices :: "int list list"
  transform :: "real list list list"
  find_simplex :: "real list \<Rightarrow> int"

text \<open>
  What SciPy documents of a triangulation of \<open>N\<close> points of the plane: at least one
  triangle, three point indices below \<open>N\<close> per triangle, a \<open>3 \<times> 2\<close> transform per
  triangle, and \<open>find_simplex\<close> answering a triangle's index or \<open>-1\<close>.
\<close>

definition triangulation_ok :: "nat \<Rightarrow> triangulation \<Rightarrow> bool" where
  "triangulation_ok N tri =
     (simplices tri \<noteq> [] \<and> length (transform tri) = length (simplices tri) \<and>
      (\<forall>s \<in> set (simplices tri). length s = 3 \<and> (\<forall>v \<in> set s. 0 \<le> v \<and> v < int N)) \<and>
      (\<forall>t \<in> set (transform tri). length t = 3 \<and> (\<forall>row \<in> set t. length row = 2)) \<and>
      (\<forall>p. - 1 \<le> find_simplex tri p \<and> find_simplex tri p < int (length (simplices tri))))"

text \<open>
  Indexing \<open>simplices\<close> and \<open>transform\<close> with the array of \<open>find_simplex\<close> answers is
  NumPy's integer-array indexing: the answer \<open>-1\<close> selects the last triangle.
\<close>

definition scan_interpolation_weights ::
  "(real list list \<Rightarrow> error + triangulation) \<Rightarrow> scanconversion_config \<Rightarrow>
   error + (int list list \<times> real list list)" where
  "scan_interpolation_weights Delaunay cfg =
     bindE (getitem ''curvilinear_image_size'' (curvilinear_image_size cfg)) (\<lambda>image_size.
     bindE (scan_conversion_inverse cfg) (\<lambda>(x_cart, y_cart).
     bindE (Delaunay (vstack_T (concat x_cart) (concat y_cart))) (\<lambda>tri.
     bindE (mgrid image_size) (\<lambda>(grid_x, grid_y).
     let pixels = vstack_T (concat grid_x) (concat grid_y);
         found = map (find_simplex tri) pixels in
     bindE (mapE (subscript (simplices tri)) found) (\<lambda>vertices.
     bindE (mapE (subscript (transform tri)) found) (\<lambda>T.
     let X = map (take 2) T in
     bindE (mapE (\<lambda>t. subscript t 2) T) (\<lambda>offsets.
     let Y = map2 (map2 (-)) pixels offsets;
         b = einsum_ijk_ik X Y;
         weights = map (\<lambda>bi. bi @ [1 - sum_list bi]) b in
     Inr (vertices, weights))))))))"

section \<open>Forward conversion: \<open>scan_convert\<close>\<close>

text \<open>
  \<open>linear_data.flatten()\<close> is the concatenation of the rows; \<open>np.take(z, vertices)\<close>
  reads \<open>z\<close> at every index of \<open>vertices\<close> and raises on an index out of range.
\<close>

definition scan_convert ::
  "real list list \<Rightarrow> scanconversion_config \<Rightarrow> int list list \<Rightarrow> real list list \<Rightarrow>
   error + real list list" where
  "scan_convert linear_data cfg vertices weights =
     (let z = concat linear_data in
      bindE (mapE (mapE (subscript z)) vertices) (\<lambda>taken.
      bindE (einsum_ij_ij taken weights) (\<lambda>zi.
      bindE (getitem ''curvilinear_image_size'' (curvilinear_image_size cfg)) (\<lambda>image_size.
      reshape2 zi image_size image_size))))"

section \<open>Validity mask: \<open>curvilinear_mask\<close>\<close>

text \<open>
  The mask is an array of bytes (\<open>int8\<close> while OpenCV draws on it, \<open>uint8\<close> after
  \<open>astype\<close>, which keeps the bits of the values 0 and 1 the drawing writes).
\<close>

type_synonym image = "8 word list list"

text \<open>
  Which pixels a filled ellipse sector and a filled disc cover is decided by OpenCV's
  rasteriser, a parameter here: \<open>ellipse_region centre axes angle startAngle endAngle
  thickness row col\<close> and \<open>circle_region centre radius thickness row col\<close> say whether
  the pixel at \<open>(row, col)\<close> is drawn. Centres are \<open>(x, y)\<close>, that is (column, row).
\<close>

record rasteriser =
  ellipse_region :: "int \<times> int \<Rightarrow> int \<times> int \<Rightarrow> real \<Rightarrow> real \<Rightarrow> real \<Rightarrow> int \<Rightarrow> nat \<Rightarrow> nat \<Rightarrow> bool"
  circle_region :: "int \<times> int \<Rightarrow> int \<Rightarrow> int \<Rightarrow> nat \<Rightarrow> nat \<Rightarrow> bool"

text \<open>Drawing writes the colour at every covered pixel and leaves the others.\<close>

definition paint :: "(nat \<Rightarrow> nat \<Rightarrow> bool) \<Rightarrow> 8 word \<Rightarrow> image \<Rightarrow> image" where
  "paint region colour img =
     map (\<lambda>r. map (\<lambda>c. if region r c then colour else img ! r ! c) [0..<length (img ! r)])
         [0..<length img]"

text \<open>\<open>cv2.ellipse\<close> and \<open>cv2.circle\<close> assert that the axes and the radius are not negative.\<close>

definition cv2_ellipse ::
  "rasteriser \<Rightarrow> image \<Rightarrow> int \<times> int \<Rightarrow> int \<times> int \<Rightarrow> real \<Rightarrow> real \<Rightarrow> real \<Rightarrow> 8 word \<Rightarrow> int \<Rightarrow>
   error + image" where
  "cv2_ellipse rast img center axes angle startAngle endAngle colour thickness =
     (if fst axes < 0 \<or> snd axes < 0 then Inl Cv2Error
      else Inr (paint (ellipse_region rast center axes angle startAngle endAngle thickness)
                      colour img))"

definition cv2_circle ::
  "rasteriser \<Rightarrow> image \<Rightarrow> int \<times> int \<Rightarrow> int \<Rightarrow> 8 word \<Rightarrow> int \<Rightarrow> error + image" where
  "cv2_circle rast img center radius colour thickness =
     (if radius < 0 then Inl Cv2Error
      else Inr (paint (circle_region rast center radius thickness) colour img))"

text \<open>
  The four assignments \<open>mask_array[0, :] = 0\<close>, \<open>mask_array[:, 0] = 0\<close>,
  \<open>mask_array[-1, :] = 0\<close>, \<open>mask_array[:, -1] = 0\<close>; subscripting an axis of length
  zero raises.
\<close>

definition clear_border :: "image \<Rightarrow> error + image" where
  "clear_border mask_array =
     (if mask_array = [] \<or> hd mask_array = [] then Inl IndexError
      else let m1 = mask_array[0 := replicate (length (mask_array ! 0)) 0];
               m2 = map (\<lambda>row. row[0 := 0]) m1;
               m3 = m2[length m2 - 1 := replicate (length (m2 ! (length m2 - 1))) 0];
               m4 = map (\<lambda>row. row[length row - 1 := 0]) m3
           in Inr m4)"

text \<open>
  \<open>cv2.erode\<close> with the default anchor (the kernel's centre, \<open>size div 2\<close>) and the
  default border (a constant that never lowers a minimum): a pixel becomes the minimum
  of the source under the non-zero kernel elements that fall inside the image. As in
  OpenCV's \<open>morphOp\<close>, zero iterations or a \<open>1 \<times> 1\<close> kernel copy the source, and an
  empty kernel stands for the \<open>3 \<times> 3\<close> rectangle.
\<close>

definition in_image :: "image \<Rightarrow> int \<Rightarrow> int \<Rightarrow> bool" where
  "in_image src r c = (0 \<le> r \<and> r < int (length src) \<and> 0 \<le> c \<and> c < int (length (src ! nat r)))"

definition erode_pixel :: "image \<Rightarrow> 8 word list list \<Rightarrow> nat \<times> nat \<Rightarrow> nat \<Rightarrow> nat \<Rightarrow> 8 word" where
  "erode_pixel src kern anchor r c =
     foldr min
       [src ! nat (int r + int i - int (fst anchor)) ! nat (int c + int j - int (snd anchor)).
          i \<leftarrow> [0..<length kern], j \<leftarrow> [0..<length (kern ! i)],
          kern ! i ! j \<noteq> 0 \<and>
          in_image src (int r + int i - int (fst anchor)) (int c + int j - int (snd anchor))]
       255"

definition erode_once :: "8 word list list \<Rightarrow> nat \<times> nat \<Rightarrow> image \<Rightarrow> image" where
  "erode_once kern anchor src =
     map (\<lambda>r. map (\<lambda>c. erode_pixel src kern anchor r c) [0..<length (src ! r)])
         [0..<length src]"

definition cv2_erode :: "image \<Rightarrow> 8 word list list \<Rightarrow> nat \<Rightarrow> image" where
  "cv2_erode src kern iterations =
     (if iterations = 0 \<or> (length kern = 1 \<and> length (hd kern) = 1) then src
      else if kern = [] \<or> hd kern = []
      then erode_once (replicate (1 + 2 * iterations) (replicate (1 + 2 * iterations) 1))
             (iterations, iterations) src
      else (erode_once kern (length kern div 2, length (hd kern) div 2) ^^ iterations) src)"

text \<open>Python's \<open>int(x)\<close> of a float: truncation towards zero.\<close>

definition py_int :: "real \<Rightarrow> int" where
  "py_int x = (if 0 \<le> x then \<lfloor>x\<rfloor> else \<lceil>x\<rceil>)"

text \<open>\<open>erosion_size = int(0.1 * image_size)\<close>.\<close>

definition erosion_size :: "int \<Rightarrow> int" where
  "erosion_size image_size = py_int (0.1 * real_of_int image_size)"

text \<open>
  The side the specification gives for the structuring element,
  \<open>round(0.1 \<times> curvilinear_image_size)\<close>, to compare with \<open>erosion_size\<close>.
\<close>

definition spec_erosion_size :: "int \<Rightarrow> int" where
  "spec_erosion_size image_size = round (0.1 * real_of_int image_size)"

text \<open>
  The first part of \<open>curvilinear_mask\<close>, up to the repainted border: the annulus sector
  before the erosion, returned with the image size.
\<close>

definition annulus_sector :: "rasteriser \<Rightarrow> scanconversion_config \<Rightarrow> error + (int \<times> image)" where
  "annulus_sector rast cfg =
     bindE (getitem ''angle_min_degrees'' (angle_min_degrees cfg)) (\<lambda>angle_min.
     bindE (getitem ''angle_max_degrees'' (angle_max_degrees cfg)) (\<lambda>angle_max.
     let angle1 = 90 + angle_min; angle2 = 90 + angle_max in
     bindE (getitem ''center_coordinate_pixel'' (center_coordinate_pixel cfg)) (\<lambda>center.
     bindE (subscript center 0) (\<lambda>center_rows_px.
     bindE (getitem ''center_coordinate_pixel'' (center_coordinate_pixel cfg)) (\<lambda>center.
     bindE (subscript center 1) (\<lambda>center_cols_px.
     bindE (getitem ''radius_start_pixels'' (radius_start_pixels cfg)) (\<lambda>radius1.
     bindE (getitem ''radius_end_pixels'' (radius_end_pixels cfg)) (\<lambda>radius2.
     bindE (getitem ''curvilinear_image_size'' (curvilinear_image_size cfg)) (\<lambda>image_size.
     bindE (np_full 0 image_size image_size) (\<lambda>mask_array.
     bindE (cv2_ellipse rast mask_array (center_cols_px, center_rows_px) (radius2, radius2)
              0 angle1 angle2 1 (- 1)) (\<lambda>mask_array.
     bindE (cv2_circle rast mask_array (center_cols_px, center_rows_px) radius1 0 (- 1))
       (\<lambda>mask_array.
     bindE (clear_border mask_array) (\<lambda>mask_array.
     Inr (image_size, mask_array))))))))))))))"

text \<open>The whole function: the annulus sector, eroded once by the square of ones.\<close>

definition curvilinear_mask :: "rasteriser \<Rightarrow> scanconversion_config \<Rightarrow> error + image" where
  "curvilinear_mask rast cfg =
     bindE (annulus_sector rast cfg) (\<lambda>(image_size, mask_array).
     bindE (np_full 1 (erosion_size image_size) (erosion_size image_size)) (\<lambda>kern.
     Inr (cv2_erode mask_array kern 1)))"

section \<open>The frame path: \<open>preprocess_input\<close>\<close>

text \<open>
  A frame is an array of shape \<open>(1, H, W)\<close>. \<open>scipy.ndimage.map_coordinates\<close> and
  \<open>torch.nn.functional.interpolate\<close> are parameters. With a configuration, the source
  first rebinds \<open>image\<close> (here \<open>img\<close>) to \<open>np.zeros((1, num_lines, num_samples))\<close>
  and then resamples \<open>image[0, :, :]\<close>, the plane of that new array, at
  \<open>[x_cart, y_cart]\<close> with order 1, mode \<open>constant\<close> and fill 0; the result is
  assigned to the plane (the model requires the shapes to agree). Then the plane is
  repeated on three channels, divided by 255, permuted to channels first and resized.
\<close>

definition preprocess_input ::
  "(real list list \<Rightarrow> real list list list \<Rightarrow> nat \<Rightarrow> string \<Rightarrow> real \<Rightarrow> error + real list list) \<Rightarrow>
   (real list list list list \<Rightarrow> int \<Rightarrow> string \<Rightarrow> error + real list list list list) \<Rightarrow>
   real list list list \<Rightarrow> int \<Rightarrow> scanconversion_config option \<Rightarrow>
   real list list \<Rightarrow> real list list \<Rightarrow> error + real list list list list" where
  "preprocess_input map_coordinates interpolate img image_size cfg_opt x_cart y_cart =
     bindE (case cfg_opt of
              None \<Rightarrow> Inr img
            | Some cfg \<Rightarrow>
                bindE (getitem ''num_samples_along_lines'' (num_samples_along_lines cfg))
                  (\<lambda>num_samples.
                bindE (getitem ''num_lines'' (num_lines cfg)) (\<lambda>n_lines.
                bindE (np_full 0 n_lines num_samples) (\<lambda>plane.
                let img = [plane] in
                bindE (map_coordinates (img ! 0) [x_cart, y_cart] 1 ''constant'' 0)
                  (\<lambda>resampled.
                if map length resampled = map length (img ! 0)
                then Inr (img[0 := resampled]) else Inl ValueError)))))
       (\<lambda>img.
     bindE (subscript img 0) (\<lambda>plane.
     let repeated = map (map (\<lambda>v. replicate 3 v)) plane;
         scaled = map (map (map (\<lambda>v. v / 255))) repeated;
         permuted = map (\<lambda>k. map (map (\<lambda>px. px ! k)) scaled) [0..<3]
     in interpolate [permuted] image_size ''nearest''))"

section \<open>Loading the configuration in \<open>run_client\<close>\<close>

text \<open>
  What \<open>run_client\<close> computes between parsing the file and entering the frame loop.
  The argument is the parsed dictionary, or \<open>None\<close> when no file was named. An
  exception leaves \<open>run_client\<close>, so \<open>Inl\<close> means that the loop is never entered.
\<close>

record artefacts =
  x_cart :: "real list list"
  y_cart :: "real list list"
  vertices :: "int list list"
  weights :: "real list list"
  mask_array :: image

definition load_scanconversion ::
  "(real list list \<Rightarrow> error + triangulation) \<Rightarrow> rasteriser \<Rightarrow> scanconversion_config option \<Rightarrow>
   error + artefacts option" where
  "load_scanconversion Delaunay rast cfg_opt =
     (case cfg_opt of
        None \<Rightarrow> Inr None
      | Some cfg \<Rightarrow>
          bindE (scan_conversion_inverse cfg) (\<lambda>(xc, yc).
          bindE (scan_interpolation_weights Delaunay cfg) (\<lambda>(vs, ws).
          bindE (curvilinear_mask rast cfg) (\<lambda>m.
          Inr (Some \<lparr>x_cart = xc, y_cart = yc, vertices = vs, weights = ws, mask_array = m\<rparr>)))))"

section \<open>A concrete configuration and concrete library answers\<close>

text \<open>
  The theorems below are instantiated on a quarter sector: angles from 0 to 90 degrees,
  radii from 1 to 8 pixels, two lines of two samples, centre \<open>(2, 2)\<close>, in a
  \<open>10 \<times> 10\<close> image. Its four sample points are \<open>(3, 2)\<close>, \<open>(2, 3)\<close>, \<open>(10, 2)\<close> and
  \<open>(2, 10)\<close>.
\<close>

definition quarter_config :: scanconversion_config where
  "quarter_config =
     \<lparr>angle_min_degrees = Some 0, angle_max_degrees = Some 90,
      radius_start_pixels = Some 1, radius_end_pixels = Some 8,
      num_lines = Some 2, num_samples_along_lines = Some 2,
      center_coordinate_pixel = Some [2, 2], curvilinear_image_size = Some 10\<rparr>"

text \<open>The same sector with the two radii exchanged, so that the end radius is the smaller.\<close>

definition reversed_config :: scanconversion_config where
  "reversed_config =
     quarter_config\<lparr>radius_start_pixels := Some 8, radius_end_pixels := Some 1\<rparr>"

text \<open>
  Point location by search: the barycentric coordinates of a point in a triangle are read
  off the triangle's transform, and the first triangle in which none is negative is the
  answer.
\<close>

definition barycentric :: "real list list \<Rightarrow> real list \<Rightarrow> real list" where
  "barycentric t p =
     (let b = map (\<lambda>row. sum_list (map2 (*) row (map2 (-) p (t ! 2)))) (take 2 t)
      in b @ [1 - sum_list b])"

fun locate :: "int \<Rightarrow> real list list list \<Rightarrow> real list \<Rightarrow> int" where
  "locate k [] p = - 1"
| "locate k (t # ts) p =
     (if list_all (\<lambda>c. 0 \<le> c) (barycentric t p) then k else locate (k + 1) ts p)"

text \<open>
  The two triangles of the four sample points (they lie on a circle, so either diagonal
  gives a Delaunay triangulation): \<open>(3,2), (2,3), (10,2)\<close> and \<open>(2,3), (10,2), (2,10)\<close>,
  each with the inverse of the matrix of its edge vectors and its last vertex.
\<close>

definition quarter_transform :: "real list list list" where
  "quarter_transform =
     [[[- 1 / 7, - 8 / 7], [0, 1], [10, 2]],
      [[- 1 / 7, - 1 / 7], [1 / 8, 0], [2, 10]]]"

definition quarter_triangulation :: triangulation where
  "quarter_triangulation =
     \<lparr>simplices = [[0, 1, 2], [1, 2, 3]], transform = quarter_transform,
      find_simplex = locate 0 quarter_transform\<rparr>"

definition reversed_triangulation :: triangulation where
  "reversed_triangulation =
     \<lparr>simplices = [[2, 3, 0], [3, 0, 1]], transform = quarter_transform,
      find_simplex = locate 0 quarter_transform\<rparr>"

text \<open>
  The answers of \<open>Delaunay\<close> on the point lists of this development: the two
  triangulations above, and the exceptions SciPy raises when it is given no point
  (\<open>ValueError\<close>) or fewer than three points, from which Qhull cannot build a first
  triangle (\<open>QhullError\<close>). No other point list is used.
\<close>

definition quarter_Delaunay :: "real list list \<Rightarrow> error + triangulation" where
  "quarter_Delaunay points =
     (if points = [] then Inl ValueError
      else if length points < 3 then Inl QhullError
      else if points = [[3, 2], [2, 3], [10, 2], [2, 10]] then Inr quarter_triangulation
      else if points = [[10, 2], [2, 10], [3, 2], [2, 3]] then Inr reversed_triangulation
      else Inl QhullError)"

text \<open>
  A rasteriser by exact geometry: a pixel belongs to the sector when it lies in the
  ellipse and its direction from the centre is between the two angles (for sectors of
  at most a half turn), and to the disc when its distance from the centre is at most the
  radius.
\<close>

definition exact_rasteriser :: rasteriser where
  "exact_rasteriser =
     \<lparr>ellipse_region = (\<lambda>(cx, cy) (ax, ay) angle a1 a2 thickness r c.
        let dx = int c - cx; dy = int r - cy
        in ay\<^sup>2 * dx\<^sup>2 + ax\<^sup>2 * dy\<^sup>2 \<le> ax\<^sup>2 * ay\<^sup>2 \<and>
           0 \<le> cos (deg2rad a1) * real_of_int dy - sin (deg2rad a1) * real_of_int dx \<and>
           0 \<le> real_of_int dx * sin (deg2rad a2) - real_of_int dy * cos (deg2rad a2)),
      circle_region = (\<lambda>(cx, cy) radius thickness r c.
        (int c - cx)\<^sup>2 + (int r - cy)\<^sup>2 \<le> radius\<^sup>2)\<rparr>"

text \<open>
  The quarter sector with a single line: a valid configuration with only the two sample
  points \<open>(3, 2)\<close> and \<open>(2, 3)\<close>.
\<close>

definition two_point_config :: scanconversion_config where
  "two_point_config = quarter_config\<lparr>num_lines := Some 1\<rparr>"

text \<open>
  The quarter sector in an image of side 26, where the truncated tenth of the side is 2
  and the rounded tenth is 3.
\<close>

definition wide_config :: scanconversion_config where
  "wide_config = quarter_config\<lparr>curvilinear_image_size := Some 26\<rparr>"

section \<open>Notions used to state the properties of the weights\<close>

text \<open>
  The sample points handed to \<open>Delaunay\<close>: the pairs of the flattened coordinate arrays
  (the empty list if the geometry raises).
\<close>

definition sample_points :: "scanconversion_config \<Rightarrow> real list list" where
  "sample_points cfg =
     (case scan_conversion_inverse cfg of
        Inr (xc, yc) \<Rightarrow> vstack_T (concat xc) (concat yc)
      | Inl e \<Rightarrow> [])"

text \<open>
  The output pixels in the order of \<open>flatten()\<close>: pixel \<open>(r, c)\<close> of an image of side
  \<open>n\<close> has the flat index \<open>r * n + c\<close>.
\<close>

definition pixel_grid :: "int \<Rightarrow> real list list" where
  "pixel_grid n = map (\<lambda>k. [real (k div nat n), real (k mod nat n)]) [0..<nat n * nat n]"

text \<open>
  The triangle whose row is read for a query point: the one \<open>find_simplex\<close> names, or
  the last one when the answer is negative.
\<close>

definition selected :: "triangulation \<Rightarrow> real list \<Rightarrow> nat" where
  "selected tri p =
     (if 0 \<le> find_simplex tri p then nat (find_simplex tri p)
      else nat (int (length (simplices tri)) + find_simplex tri p))"

text \<open>
  The required keys that are absent from a configuration, in the order in which loading
  first reads them.
\<close>

definition missing_keys :: "scanconversion_config \<Rightarrow> string list" where
  "missing_keys cfg =
     (if angle_min_degrees cfg = None then [''angle_min_degrees''] else []) @
     (if angle_max_degrees cfg = None then [''angle_max_degrees''] else []) @
     (if radius_start_pixels cfg = None then [''radius_start_pixels''] else []) @
     (if radius_end_pixels cfg = None then [''radius_end_pixels''] else []) @
     (if num_samples_along_lines cfg = None then [''num_samples_along_lines''] else []) @
     (if num_lines cfg = None then [''num_lines''] else []) @
     (if center_coordinate_pixel cfg = None then [''center_coordinate_pixel''] else []) @
     (if curvilinear_image_size cfg = None then [''curvilinear_image_size''] else [])"

section \<open>The same arithmetic in binary64\<close>

text \<open>
  NumPy computes the weights and the conversion in 64-bit floats. \<open>binary64 x\<close> is the
  float nearest to the real \<open>x\<close>: \<open>x\<close> is scaled by the unit in the last place of its
  binade (53 significant bits), rounded to the nearest integer with ties to the even
  one, and scaled back. The exponent range is not bounded, so overflow, underflow and
  NaN are outside the model: it is IEEE arithmetic as long as every result is a normal
  number. Every operation of the program is the exact operation followed by
  \<open>binary64\<close>.
\<close>

definition round_half_even :: "real \<Rightarrow> int" where
  "round_half_even y =
     (let f = \<lfloor>y\<rfloor>; d = y - of_int f
      in if d < 1 / 2 then f else if 1 / 2 < d then f + 1 else if even f then f else f + 1)"

definition binary64 :: "real \<Rightarrow> real" where
  "binary64 x =
     (if x = 0 then 0
      else let ulp = 2 powr (of_int \<lfloor>log 2 \<bar>x\<bar>\<rfloor> - 52)
           in of_int (round_half_even (x / ulp)) * ulp)"

text \<open>
  A sum of products as the loop of \<open>np.einsum\<close> accumulates it: every product is
  rounded, and the products are added from left to right, each addition rounded (adding
  the first product to the zero accumulator is exact). \<open>sum_f64\<close> is \<open>b.sum\<close> along a
  short axis, accumulated in the same way.
\<close>

definition sum_f64 :: "real list \<Rightarrow> real" where
  "sum_f64 xs = (case xs of [] \<Rightarrow> 0 | x # rest \<Rightarrow> foldl (\<lambda>acc y. binary64 (acc + y)) x rest)"

definition dot_f64 :: "real list \<Rightarrow> real list \<Rightarrow> real" where
  "dot_f64 u w = sum_f64 (map2 (\<lambda>a b. binary64 (a * b)) u w)"

definition einsum_ijk_ik_f64 :: "real list list list \<Rightarrow> real list list \<Rightarrow> real list list" where
  "einsum_ijk_ik_f64 X Y = map2 (\<lambda>Xi Yi. map (\<lambda>row. dot_f64 row Yi) Xi) X Y"

definition einsum_ij_ij_f64 :: "real list list \<Rightarrow> real list list \<Rightarrow> error + real list" where
  "einsum_ij_ij_f64 a b =
     (if map length a = map length b then Inr (map2 dot_f64 a b) else Inl ValueError)"

text \<open>
  \<open>scan_interpolation_weights\<close> and \<open>scan_convert\<close> with every subtraction, product
  and sum rounded. The sample points are only handed to \<open>Delaunay\<close>, whose answer is a
  parameter, and the pixel coordinates are integers.
\<close>

definition scan_interpolation_weights_f64 ::
  "(real list list \<Rightarrow> error + triangulation) \<Rightarrow> scanconversion_config \<Rightarrow>
   error + (int list list \<times> real list list)" where
  "scan_interpolation_weights_f64 Delaunay cfg =
     bindE (getitem ''curvilinear_image_size'' (curvilinear_image_size cfg)) (\<lambda>image_size.
     bindE (scan_conversion_inverse cfg) (\<lambda>(xc, yc).
     bindE (Delaunay (vstack_T (concat xc) (concat yc))) (\<lambda>tri.
     bindE (mgrid image_size) (\<lambda>(grid_x, grid_y).
     let pixels = vstack_T (concat grid_x) (concat grid_y);
         found = map (find_simplex tri) pixels in
     bindE (mapE (subscript (simplices tri)) found) (\<lambda>vs.
     bindE (mapE (subscript (transform tri)) found) (\<lambda>T.
     let X = map (take 2) T in
     bindE (mapE (\<lambda>t. subscript t 2) T) (\<lambda>offsets.
     let Y = map2 (map2 (\<lambda>a b. binary64 (a - b))) pixels offsets;
         b = einsum_ijk_ik_f64 X Y;
         ws = map (\<lambda>bi. bi @ [binary64 (1 - sum_f64 bi)]) b in
     Inr (vs, ws))))))))"

definition scan_convert_f64 ::
  "real list list \<Rightarrow> scanconversion_config \<Rightarrow> int list list \<Rightarrow> real list list \<Rightarrow>
   error + real list list" where
  "scan_convert_f64 linear_data cfg vs ws =
     (let z = concat linear_data in
      bindE (mapE (mapE (subscript z)) vs) (\<lambda>taken.
      bindE (einsum_ij_ij_f64 taken ws) (\<lambda>zi.
      bindE (getitem ''curvilinear_image_size'' (curvilinear_image_size cfg)) (\<lambda>image_size.
      reshape2 zi image_size image_size))))"

text \<open>The weight row of one pixel, from the transform of its triangle.\<close>

definition weight_row_f64 :: "real list list \<Rightarrow> real list \<Rightarrow> real list" where
  "weight_row_f64 t p =
     (let b = map (\<lambda>row. dot_f64 row (map2 (\<lambda>a c. binary64 (a - c)) p (t ! 2))) (take 2 t)
      in b @ [binary64 (1 - sum_f64 b)])"

text \<open>
  SciPy reports a query point as inside a triangle after checking that its barycentric
  coordinates, computed from the triangle's transform, lie between 0 and 1 up to a small
  tolerance. The contract is stated of the coordinates as the program computes them,
  with the generous tolerance \<open>2\<^sup>-\<^sup>2\<^sup>0\<close>.
\<close>

definition inside_tolerance :: "triangulation \<Rightarrow> bool" where
  "inside_tolerance tri =
     (\<forall>p. 0 \<le> find_simplex tri p \<longrightarrow>
        (\<forall>c \<in> set (weight_row_f64 (transform tri ! nat (find_simplex tri p)) p).
           - (1 / 2 ^ 20) \<le> c \<and> c \<le> 1 + 1 / 2 ^ 20))"

text \<open>
  The triangulation of the quarter sector in binary64: the entries of the two inverse
  matrices are the floats nearest to \<open>-1/7\<close>, \<open>-8/7\<close> and \<open>1/8\<close>, and a point is located
  in the first triangle in which its three computed coordinates lie between 0 and 1.
\<close>

definition quarter_transform_f64 :: "real list list list" where
  "quarter_transform_f64 =
     [[[- 2573485501354569 / 18014398509481984, - 2573485501354569 / 2251799813685248],
       [0, 1], [10, 2]],
      [[- 2573485501354569 / 18014398509481984, - 2573485501354569 / 18014398509481984],
       [1 / 8, 0], [2, 10]]]"

fun locate_f64 :: "int \<Rightarrow> real list list list \<Rightarrow> real list \<Rightarrow> int" where
  "locate_f64 k [] p = - 1"
| "locate_f64 k (t # ts) p =
     (if list_all (\<lambda>c. 0 \<le> c \<and> c \<le> 1) (weight_row_f64 t p) then k
      else locate_f64 (k + 1) ts p)"

definition quarter_triangulation_f64 :: triangulation where
  "quarter_triangulation_f64 =
     \<lparr>simplices = [[0, 1, 2], [1, 2, 3]], transform = quarter_transform_f64,
      find_simplex = locate_f64 0 quarter_transform_f64\<rparr>"

definition quarter_Delaunay_f64 :: "real list list \<Rightarrow> error + triangulation" where
  "quarter_Delaunay_f64 points =
     (if points = [[3, 2], [2, 3], [10, 2], [2, 10]] then Inr quarter_triangulation_f64
      else Inl QhullError)"

section \<open>Properties of the geometry\<close>

lemma bindE_Inr [simp]: "bindE (Inr v) f = f v"
  by (simp add: bindE_def)

lemma bindE_Inl [simp]: "bindE (Inl e) f = Inl e"
  by (simp add: bindE_def)

lemma getitem_Some [simp]: "getitem k (Some v) = Inr v"
  by (simp add: getitem_def)

lemma getitem_None [simp]: "getitem k None = Inl (KeyError k)"
  by (simp add: getitem_def)

lemma linspace_length:
  assumes "linspace a b n = Inr ys"
  shows "length ys = nat n"
  using assms by (auto simp: linspace_def Let_def split: if_splits)

lemma linspace_bounds:
  assumes "linspace a b n = Inr ys" and "a \<le> b" and "y \<in> set ys"
  shows "a \<le> y \<and> y \<le> b"
proof -
  from assms(1) have n0: "0 \<le> n"
    by (auto simp: linspace_def split: if_splits)
  from assms(1,3) n0 obtain i where i: "i < nat n"
    and y: "y = (if 0 < n - 1 then real i * ((b - a) / real_of_int (n - 1)) + a
                 else real i * (b - a) + a)"
    by (auto simp: linspace_def Let_def split: if_splits)
  show ?thesis
  proof (cases "0 < n - 1")
    case True
    then have d: "0 < real_of_int (n - 1)" by simp
    from i True have "real i \<le> real_of_int (n - 1)" by linarith
    with d have frac: "real i / real_of_int (n - 1) \<le> 1" by (simp add: divide_le_eq)
    have nonneg: "0 \<le> real i / real_of_int (n - 1)" using d by simp
    have eq: "y = (real i / real_of_int (n - 1)) * (b - a) + a"
      using y True by simp
    have "0 \<le> (real i / real_of_int (n - 1)) * (b - a)"
      using nonneg assms(2) by (intro mult_nonneg_nonneg) simp_all
    moreover have "(real i / real_of_int (n - 1)) * (b - a) \<le> 1 * (b - a)"
      using frac assms(2) by (intro mult_right_mono) simp_all
    ultimately show ?thesis using eq by simp
  next
    case False
    with i have "i = 0" by linarith
    with y False assms(2) show ?thesis by simp
  qed
qed

lemma zip_replicate_right: "zip xs (replicate (length xs) a) = map (\<lambda>x. (x, a)) xs"
  by (induction xs) simp_all

lemma zip_replicate_left: "zip (replicate (length ys) a) ys = map (\<lambda>y. (a, y)) ys"
  by (induction ys) simp_all

lemma meshgrid_rows:
  "map2 (map2 f) (map (\<lambda>v. replicate (length a) v) b) (replicate (length b) a) =
   map (\<lambda>v. map (\<lambda>th. f v th) a) b"
proof -
  have "zip (map (\<lambda>v. replicate (length a) v) b) (replicate (length b) a) =
        map (\<lambda>v. (replicate (length a) v, a)) b"
    using zip_replicate_right [of "map (\<lambda>v. replicate (length a) v) b" a]
    by (simp add: comp_def)
  then show ?thesis
    by (simp add: comp_def zip_replicate_left)
qed

lemma scan_conversion_inverse_valid:
  assumes "valid_config cfg"
    and "angle_min_degrees cfg = Some a_min" and "angle_max_degrees cfg = Some a_max"
    and "radius_start_pixels cfg = Some r_start" and "radius_end_pixels cfg = Some r_end"
    and "num_lines cfg = Some L" and "num_samples_along_lines cfg = Some S"
    and "center_coordinate_pixel cfg = Some [cx, cy]"
  shows "\<exists>angles radii.
           linspace (deg2rad a_min) (deg2rad a_max) S = Inr angles \<and>
           linspace (real_of_int r_start) (real_of_int r_end) L = Inr radii \<and>
           scan_conversion_inverse cfg =
             Inr (map (\<lambda>v. map (\<lambda>th. v * cos th + real_of_int cx) angles) radii,
                  map (\<lambda>v. map (\<lambda>th. v * sin th + real_of_int cy) angles) radii)"
proof -
  from assms have S: "0 \<le> S" and L: "0 \<le> L"
    by (simp_all add: valid_config_def)
  from S obtain angles where a: "linspace (deg2rad a_min) (deg2rad a_max) S = Inr angles"
    by (simp add: linspace_def Let_def)
  from L obtain radii where r: "linspace (real_of_int r_start) (real_of_int r_end) L = Inr radii"
    by (simp add: linspace_def Let_def)
  show ?thesis
    using a r assms(2-)
    by (simp add: scan_conversion_inverse_def Let_def meshgrid_def subscript_def meshgrid_rows)
qed

text \<open>
  Claim C4. For every valid configuration, the geometry returns two arrays \<open>x_cart\<close>
  and \<open>y_cart\<close> of shape \<open>(num_lines, num_samples_along_lines)\<close>, and every
  coordinate lies within \<open>radius_end_pixels\<close> of the matching component of
  \<open>center_coordinate_pixel\<close>.
\<close>

theorem sample_grid_shape_and_bounds:
  assumes "valid_config cfg"
    and "num_lines cfg = Some L" and "num_samples_along_lines cfg = Some S"
    and "radius_end_pixels cfg = Some r_end"
    and "center_coordinate_pixel cfg = Some [cx, cy]"
  shows "\<exists>xc yc. scan_conversion_inverse cfg = Inr (xc, yc) \<and>
           length xc = nat L \<and> length yc = nat L \<and>
           (\<forall>row \<in> set xc. length row = nat S \<and>
              (\<forall>v \<in> set row. real_of_int (cx - r_end) \<le> v \<and> v \<le> real_of_int (cx + r_end))) \<and>
           (\<forall>row \<in> set yc. length row = nat S \<and>
              (\<forall>v \<in> set row. real_of_int (cy - r_end) \<le> v \<and> v \<le> real_of_int (cy + r_end)))"
proof -
  from assms(1) obtain a_min a_max r_start where
    keys: "angle_min_degrees cfg = Some a_min" "angle_max_degrees cfg = Some a_max"
      "radius_start_pixels cfg = Some r_start"
    by (auto simp: valid_config_def)
  from assms(1,4) keys have order: "0 \<le> r_start" "r_start < r_end"
    by (simp_all add: valid_config_def)
  from scan_conversion_inverse_valid [OF assms(1) keys(1,2,3) assms(4,2,3,5)]
  obtain angles radii where
    a: "linspace (deg2rad a_min) (deg2rad a_max) S = Inr angles" and
    r: "linspace (real_of_int r_start) (real_of_int r_end) L = Inr radii" and
    res: "scan_conversion_inverse cfg =
             Inr (map (\<lambda>v. map (\<lambda>th. v * cos th + real_of_int cx) angles) radii,
                  map (\<lambda>v. map (\<lambda>th. v * sin th + real_of_int cy) angles) radii)"
    by blast
  have la: "length angles = nat S" and lr: "length radii = nat L"
    using a r by (simp_all add: linspace_length)
  have rb: "0 \<le> v \<and> v \<le> real_of_int r_end" if "v \<in> set radii" for v
    using linspace_bounds [OF r _ that] order by simp
  have cosb: "- real_of_int r_end \<le> v * cos th \<and> v * cos th \<le> real_of_int r_end"
    if "v \<in> set radii" for v th
  proof -
    have "\<bar>v * cos th\<bar> \<le> v * 1"
      unfolding abs_mult using rb [OF that] by (intro mult_mono) simp_all
    with rb [OF that] show ?thesis by linarith
  qed
  have sinb: "- real_of_int r_end \<le> v * sin th \<and> v * sin th \<le> real_of_int r_end"
    if "v \<in> set radii" for v th
  proof -
    have "\<bar>v * sin th\<bar> \<le> v * 1"
      unfolding abs_mult using rb [OF that] by (intro mult_mono) simp_all
    with rb [OF that] show ?thesis by linarith
  qed
  have xb: "real_of_int (cx - r_end) \<le> v * cos th + real_of_int cx \<and>
            v * cos th + real_of_int cx \<le> real_of_int (cx + r_end)"
    if "v \<in> set radii" for v th
    using cosb [OF that, of th] by simp
  have yb: "real_of_int (cy - r_end) \<le> v * sin th + real_of_int cy \<and>
            v * sin th + real_of_int cy \<le> real_of_int (cy + r_end)"
    if "v \<in> set radii" for v th
    using sinb [OF that, of th] by simp
  show ?thesis
    unfolding res using la lr xb yb by auto
qed

text \<open>The quarter sector is valid, and its four sample points are as announced.\<close>

theorem sample_grid_shape_and_bounds_witness:
  "valid_config quarter_config \<and>
   scan_conversion_inverse quarter_config = Inr ([[3, 2], [10, 2]], [[2, 3], [2, 10]]) \<and>
   (\<exists>xc yc. scan_conversion_inverse quarter_config = Inr (xc, yc) \<and>
      length xc = 2 \<and> length yc = 2 \<and>
      list_all (\<lambda>row. length row = 2 \<and> list_all (\<lambda>v. - 6 \<le> v \<and> v \<le> 10) row) xc \<and>
      list_all (\<lambda>row. length row = 2 \<and> list_all (\<lambda>v. - 6 \<le> v \<and> v \<le> 10) row) yc)"
proof -
  have v: "valid_config quarter_config"
    by (simp add: valid_config_def quarter_config_def)
  have e: "scan_conversion_inverse quarter_config = Inr ([[3, 2], [10, 2]], [[2, 3], [2, 10]])"
    by (simp add: scan_conversion_inverse_def quarter_config_def linspace_def deg2rad_def
        meshgrid_def subscript_def upt_conv_Cons)
  from sample_grid_shape_and_bounds [OF v, of 2 2 8 2 2]
  show ?thesis using v e
    by (simp add: quarter_config_def list_all_iff)
qed

section \<open>Properties of the validity mask\<close>

lemma erosion_size_div: "0 \<le> n \<Longrightarrow> erosion_size n = n div 10"
proof -
  assume n: "0 \<le> n"
  have "0.1 * real_of_int n = real_of_int n / real_of_int 10" by simp
  then have "\<lfloor>0.1 * real_of_int n\<rfloor> = n div 10"
    by (simp only: floor_divide_of_int_eq)
  with n show ?thesis by (simp add: erosion_size_def py_int_def)
qed

lemma word8_le_one: "(x :: 8 word) \<le> 1 \<Longrightarrow> x = 0 \<or> x = 1"
  using order_le_imp_less_or_eq by fastforce

lemma foldr_min_le: "x \<in> set xs \<Longrightarrow> foldr min xs (d :: 8 word) \<le> x"
  by (induction xs) (auto simp: min_le_iff_disj)

lemma paint_length [simp]: "length (paint rg col img) = length img"
  by (simp add: paint_def)

lemma paint_row_length [simp]: "r < length img \<Longrightarrow> length (paint rg col img ! r) = length (img ! r)"
  by (simp add: paint_def)

lemma paint_nth:
  "r < length img \<Longrightarrow> c < length (img ! r) \<Longrightarrow>
   paint rg col img ! r ! c = (if rg r c then col else img ! r ! c)"
  by (simp add: paint_def)

lemma erode_once_length [simp]: "length (erode_once kern anchor src) = length src"
  by (simp add: erode_once_def)

lemma erode_once_row_length [simp]:
  "r < length src \<Longrightarrow> length (erode_once kern anchor src ! r) = length (src ! r)"
  by (simp add: erode_once_def)

lemma erode_once_le:
  assumes "fst anchor < length kern" and "snd anchor < length (kern ! fst anchor)"
    and "kern ! fst anchor ! snd anchor \<noteq> 0"
    and "r < length src" and "c < length (src ! r)"
  shows "erode_once kern anchor src ! r ! c \<le> src ! r ! c"
proof -
  have "erode_once kern anchor src ! r ! c = erode_pixel src kern anchor r c"
    using assms(4,5) by (simp add: erode_once_def)
  moreover have "erode_pixel src kern anchor r c \<le> src ! r ! c"
    unfolding erode_pixel_def
  proof (rule foldr_min_le)
    show "src ! r ! c \<in> set (concat (map (\<lambda>i. concat (map (\<lambda>j.
            if kern ! i ! j \<noteq> 0 \<and> in_image src (int r + int i - int (fst anchor)) (int c + int j - int (snd anchor))
            then [src ! nat (int r + int i - int (fst anchor)) ! nat (int c + int j - int (snd anchor))] else [])
          [0..<length (kern ! i)])) [0..<length kern]))"
      using assms
      apply (simp add: in_image_def)
      apply (rule bexI [of _ "fst anchor"])
       apply (rule bexI [of _ "snd anchor"])
      apply simp_all
      done
  qed
  ultimately show ?thesis by simp
qed


lemma clear_border_square:
  assumes "length m = n" and "\<forall>r<n. length (m ! r) = n" and "0 < n"
  shows "\<exists>m'. clear_border m = Inr m' \<and> length m' = n \<and> (\<forall>r<n. length (m' ! r) = n) \<and>
           (\<forall>r<n. \<forall>c<n. m' ! r ! c =
              (if r = 0 \<or> c = 0 \<or> r = n - 1 \<or> c = n - 1 then 0 else m ! r ! c))"
proof -
  from assms have ne: "m \<noteq> []" "hd m \<noteq> []"
    by (auto simp: hd_conv_nth)
  define m1 where "m1 = m[0 := replicate (length (m ! 0)) 0]"
  define m2 where "m2 = map (\<lambda>row. row[0 := (0 :: 8 word)]) m1"
  define m3 where "m3 = m2[length m2 - 1 := replicate (length (m2 ! (length m2 - 1))) 0]"
  define m4 where "m4 = map (\<lambda>row. row[length row - 1 := (0 :: 8 word)]) m3"
  have res: "clear_border m = Inr m4"
    using ne by (simp add: clear_border_def Let_def m1_def m2_def m3_def m4_def)
  have l1: "length m1 = n" "\<forall>r<n. length (m1 ! r) = n"
    using assms by (auto simp: m1_def nth_list_update)
  have l2: "length m2 = n" "\<forall>r<n. length (m2 ! r) = n"
    using l1 by (auto simp: m2_def)
  have l3: "length m3 = n" "\<forall>r<n. length (m3 ! r) = n"
    using l2 assms(3) by (auto simp: m3_def nth_list_update)
  have l4: "length m4 = n" "\<forall>r<n. length (m4 ! r) = n"
    using l3 by (auto simp: m4_def)
  have v1: "m1 ! r ! c = (if r = 0 then 0 else m ! r ! c)" if "r < n" "c < n" for r c
    using that assms by (auto simp: m1_def nth_list_update)
  have v2: "m2 ! r ! c = (if c = 0 then 0 else m1 ! r ! c)" if "r < n" "c < n" for r c
    using that l1 by (auto simp: m2_def nth_list_update)
  have v3: "m3 ! r ! c = (if r = n - 1 then 0 else m2 ! r ! c)" if "r < n" "c < n" for r c
    using that l2 by (auto simp: m3_def nth_list_update)
  have v4: "m4 ! r ! c = (if c = n - 1 then 0 else m3 ! r ! c)" if "r < n" "c < n" for r c
    using that l3 by (auto simp: m4_def nth_list_update)
  have v: "m4 ! r ! c = (if r = 0 \<or> c = 0 \<or> r = n - 1 \<or> c = n - 1 then 0 else m ! r ! c)"
    if "r < n" "c < n" for r c
    using that by (simp add: v1 v2 v3 v4)
  show ?thesis
    using res l4 v by auto
qed


lemma cv2_erode_ones_length [simp]:
  "length (cv2_erode src (replicate k (replicate k 1)) (Suc 0)) = length src"
  by (simp add: cv2_erode_def)

lemma cv2_erode_ones_row_length:
  assumes "r < length src"
  shows "length (cv2_erode src (replicate k (replicate k 1)) (Suc 0) ! r) = length (src ! r)"
  using assms by (simp add: cv2_erode_def)

lemma cv2_erode_ones_le:
  assumes "r < length src" and "c < length (src ! r)"
  shows "cv2_erode src (replicate k (replicate k 1)) (Suc 0) ! r ! c \<le> src ! r ! c"
proof -
  consider "k = 0" | "k = 1" | "2 \<le> k" by linarith
  then show ?thesis
  proof cases
    case 1
    have "erode_once (replicate 3 (replicate 3 1)) (1, 1) src ! r ! c \<le> src ! r ! c"
      by (rule erode_once_le) (use assms in simp_all)
    with 1 show ?thesis by (simp add: cv2_erode_def numeral_3_eq_3)
  next
    case 2
    then show ?thesis by (simp add: cv2_erode_def)
  next
    case 3
    then have ne: "replicate k (replicate k (1 :: 8 word)) \<noteq> []" "k \<noteq> 1" "0 < k"
      by auto
    have "erode_once (replicate k (replicate k 1)) (k div 2, k div 2) src ! r ! c \<le> src ! r ! c"
      by (rule erode_once_le) (use assms 3 in simp_all)
    with 3 ne show ?thesis by (simp add: cv2_erode_def hd_replicate)
  qed
qed

lemma annulus_sector_valid:
  assumes "valid_config cfg" and "curvilinear_image_size cfg = Some n"
    and "angle_min_degrees cfg = Some a_min" and "angle_max_degrees cfg = Some a_max"
    and "radius_start_pixels cfg = Some r_start" and "radius_end_pixels cfg = Some r_end"
    and "center_coordinate_pixel cfg = Some [c0, c1]"
  shows "\<exists>m. annulus_sector rast cfg = Inr (n, m) \<and> length m = nat n \<and>
           (\<forall>r<nat n. length (m ! r) = nat n) \<and>
           (\<forall>r<nat n. \<forall>c<nat n. m ! r ! c =
              (if r = 0 \<or> c = 0 \<or> r = nat n - 1 \<or> c = nat n - 1 then 0
               else if circle_region rast (c1, c0) r_start (- 1) r c then 0
               else if ellipse_region rast (c1, c0) (r_end, r_end) 0 (90 + a_min) (90 + a_max)
                         (- 1) r c then 1
               else 0))"
proof -
  from assms have facts: "0 \<le> r_start" "r_start < r_end" "0 < n"
    by (simp_all add: valid_config_def)
  define zeros where "zeros = replicate (nat n) (replicate (nat n) (0 :: 8 word))"
  define sector where "sector = paint (ellipse_region rast (c1, c0) (r_end, r_end) 0
      (90 + a_min) (90 + a_max) (- 1)) 1 zeros"
  define ring where "ring = paint (circle_region rast (c1, c0) r_start (- 1)) 0 sector"
  have sq: "length ring = nat n" "\<forall>r<nat n. length (ring ! r) = nat n"
    by (simp_all add: ring_def sector_def zeros_def)
  have px: "ring ! r ! c =
              (if circle_region rast (c1, c0) r_start (- 1) r c then 0
               else if ellipse_region rast (c1, c0) (r_end, r_end) 0 (90 + a_min) (90 + a_max)
                         (- 1) r c then 1
               else 0)" if "r < nat n" "c < nat n" for r c
    using that by (simp add: ring_def sector_def zeros_def paint_nth)
  from facts have pos: "0 < nat n" by simp
  from clear_border_square [OF sq pos] obtain m' where
    m': "clear_border ring = Inr m'" "length m' = nat n" "\<forall>r<nat n. length (m' ! r) = nat n"
      "\<forall>r<nat n. \<forall>c<nat n. m' ! r ! c =
          (if r = 0 \<or> c = 0 \<or> r = nat n - 1 \<or> c = nat n - 1 then 0 else ring ! r ! c)"
    by blast
  have res: "annulus_sector rast cfg = Inr (n, m')"
    using assms(2-) facts m'(1)
    by (simp add: annulus_sector_def Let_def subscript_def np_full_def cv2_ellipse_def
        cv2_circle_def ring_def sector_def zeros_def)
  have "m' ! r ! c =
              (if r = 0 \<or> c = 0 \<or> r = nat n - 1 \<or> c = nat n - 1 then 0
               else if circle_region rast (c1, c0) r_start (- 1) r c then 0
               else if ellipse_region rast (c1, c0) (r_end, r_end) 0 (90 + a_min) (90 + a_max)
                         (- 1) r c then 1
               else 0)" if "r < nat n" "c < nat n" for r c
    using m'(4) px that by simp
  with res m'(2,3) show ?thesis by blast
qed

lemma valid_config_keys:
  assumes "valid_config cfg"
  obtains a_min a_max r_start r_end L S c0 c1 n where
    "angle_min_degrees cfg = Some a_min" "angle_max_degrees cfg = Some a_max"
    "radius_start_pixels cfg = Some r_start" "radius_end_pixels cfg = Some r_end"
    "num_lines cfg = Some L" "num_samples_along_lines cfg = Some S"
    "center_coordinate_pixel cfg = Some [c0, c1]" "curvilinear_image_size cfg = Some n"
    "0 \<le> r_start" "r_start < r_end" "a_min < a_max" "0 < n" "0 \<le> L" "0 \<le> S"
proof -
  from assms obtain a_min a_max r_start r_end L S center n where
    keys: "angle_min_degrees cfg = Some a_min" "angle_max_degrees cfg = Some a_max"
      "radius_start_pixels cfg = Some r_start" "radius_end_pixels cfg = Some r_end"
      "num_lines cfg = Some L" "num_samples_along_lines cfg = Some S"
      "center_coordinate_pixel cfg = Some center" "curvilinear_image_size cfg = Some n"
    by (auto simp: valid_config_def)
  from assms keys have facts: "length center = 2" "0 \<le> r_start" "r_start < r_end"
    "a_min < a_max" "0 < n" "0 \<le> L" "0 \<le> S"
    by (simp_all add: valid_config_def)
  from facts(1) obtain c0 c1 where "center = [c0, c1]"
    by (cases center; cases "tl center") auto
  with keys facts that show thesis by blast
qed

text \<open>
  Claim C6. For every valid configuration, whatever OpenCV's rasteriser draws, the mask
  is returned, has shape \<open>(curvilinear_image_size, curvilinear_image_size)\<close>, holds
  only the values 0 and 1, and is 0 on row 0, on the last row, on column 0 and on the
  last column.
\<close>

theorem validity_mask_binary_zero_border:
  assumes "valid_config cfg" and "curvilinear_image_size cfg = Some n"
  shows "\<exists>mask. curvilinear_mask rast cfg = Inr mask \<and> length mask = nat n \<and>
           (\<forall>r<nat n. length (mask ! r) = nat n) \<and>
           (\<forall>r<nat n. \<forall>c<nat n. mask ! r ! c = 0 \<or> mask ! r ! c = 1) \<and>
           (\<forall>i<nat n. mask ! 0 ! i = 0 \<and> mask ! (nat n - 1) ! i = 0 \<and>
                        mask ! i ! 0 = 0 \<and> mask ! i ! (nat n - 1) = 0)"
proof -
  from assms(1) obtain a_min a_max r_start r_end c0 c1 n' where
    keys: "angle_min_degrees cfg = Some a_min" "angle_max_degrees cfg = Some a_max"
      "radius_start_pixels cfg = Some r_start" "radius_end_pixels cfg = Some r_end"
      "center_coordinate_pixel cfg = Some [c0, c1]" and n': "curvilinear_image_size cfg = Some n'"
      "0 < n'"
    by (rule valid_config_keys)
  from n' assms(2) have pos: "0 < n" by simp
  from annulus_sector_valid [OF assms keys] obtain m where
    m: "annulus_sector rast cfg = Inr (n, m)" "length m = nat n"
      "\<forall>r<nat n. length (m ! r) = nat n"
      "\<forall>r<nat n. \<forall>c<nat n. m ! r ! c =
              (if r = 0 \<or> c = 0 \<or> r = nat n - 1 \<or> c = nat n - 1 then 0
               else if circle_region rast (c1, c0) r_start (- 1) r c then 0
               else if ellipse_region rast (c1, c0) (r_end, r_end) 0 (90 + a_min) (90 + a_max)
                         (- 1) r c then 1
               else 0)"
    by blast
  define k where "k = nat (erosion_size n)"
  define mask where "mask = cv2_erode m (replicate k (replicate k 1)) (Suc 0)"
  have k0: "0 \<le> erosion_size n"
    using pos by (simp add: erosion_size_div)
  have res: "curvilinear_mask rast cfg = Inr mask"
    using m(1) k0 by (simp add: curvilinear_mask_def np_full_def mask_def k_def)
  have len: "length mask = nat n" "\<forall>r<nat n. length (mask ! r) = nat n"
    using m(2,3) by (simp_all add: mask_def cv2_erode_ones_row_length)
  have le: "mask ! r ! c \<le> m ! r ! c" if "r < nat n" "c < nat n" for r c
    unfolding mask_def using that m(2,3) by (intro cv2_erode_ones_le) simp_all
  have small: "m ! r ! c \<le> 1" if "r < nat n" "c < nat n" for r c
    using m(4) that by simp
  have bin: "mask ! r ! c = 0 \<or> mask ! r ! c = 1" if "r < nat n" "c < nat n" for r c
    using le [OF that] small [OF that] by (intro word8_le_one) simp
  have edge: "m ! r ! c = 0"
    if "r < nat n" "c < nat n" "r = 0 \<or> c = 0 \<or> r = nat n - 1 \<or> c = nat n - 1" for r c
    using m(4) that by simp
  have zero: "mask ! r ! c = 0"
    if "r < nat n" "c < nat n" "r = 0 \<or> c = 0 \<or> r = nat n - 1 \<or> c = nat n - 1" for r c
    using le [OF that(1,2)] edge [OF that] by simp
  from pos have last: "nat n - 1 < nat n" "0 < nat n" by simp_all
  show ?thesis
    using res len bin zero last by (intro exI [of _ mask]) simp
qed


lemma quarter_config_valid: "valid_config quarter_config"
  by (simp add: valid_config_def quarter_config_def)

lemma quarter_mask_pixel:
  "\<exists>m. annulus_sector exact_rasteriser quarter_config = Inr (10, m) \<and>
       curvilinear_mask exact_rasteriser quarter_config = Inr m \<and> m ! 5 ! 1 = 1"
proof -
  from annulus_sector_valid [OF quarter_config_valid, of 10 0 90 1 8 2 2 exact_rasteriser]
  obtain m where m: "annulus_sector exact_rasteriser quarter_config = Inr (10, m)"
    and px: "\<forall>r<10. \<forall>c<10. m ! r ! c =
              (if r = 0 \<or> c = 0 \<or> r = 9 \<or> c = 9 then 0
               else if circle_region exact_rasteriser (2, 2) 1 (- 1) r c then 0
               else if ellipse_region exact_rasteriser (2, 2) (8, 8) 0 (90 + 0) (90 + 90)
                         (- 1) r c then 1
               else 0)"
    by (auto simp: quarter_config_def)
  have "erosion_size 10 = 1"
    by (simp add: erosion_size_div)
  with m have "curvilinear_mask exact_rasteriser quarter_config = Inr m"
    by (simp add: curvilinear_mask_def np_full_def cv2_erode_def)
  moreover from px have "m ! 5 ! 1 = 1"
    by (simp add: exact_rasteriser_def deg2rad_def)
  ultimately show ?thesis using m by blast
qed

text \<open>
  On the quarter sector the mask is \<open>10 \<times> 10\<close>, its pixel \<open>(5, 1)\<close> is 1 and the
  middle of each of its four edges is 0.
\<close>

theorem validity_mask_binary_zero_border_witness:
  "valid_config quarter_config \<and>
   (\<exists>mask. curvilinear_mask exact_rasteriser quarter_config = Inr mask \<and>
      length mask = 10 \<and> length (mask ! 5) = 10 \<and> mask ! 5 ! 1 = 1 \<and>
      mask ! 0 ! 5 = 0 \<and> mask ! 9 ! 5 = 0 \<and> mask ! 5 ! 0 = 0 \<and> mask ! 5 ! 9 = 0)"
proof -
  from quarter_mask_pixel obtain m where
    m: "curvilinear_mask exact_rasteriser quarter_config = Inr m" "m ! 5 ! 1 = 1"
    by blast
  have size: "curvilinear_image_size quarter_config = Some 10"
    by (simp add: quarter_config_def)
  from validity_mask_binary_zero_border [OF quarter_config_valid size, of exact_rasteriser] m
  show ?thesis
    by (simp add: quarter_config_valid)
qed

lemma foldr_min_binary:
  assumes "\<forall>x \<in> set xs. x = 0 \<or> x = (1 :: 8 word)"
  shows "foldr min xs 255 = (if xs = [] then 255 else if \<forall>x \<in> set xs. x = 1 then 1 else 0)"
  using assms
proof (induction xs)
  case Nil
  then show ?case by simp
next
  case (Cons x xs)
  then have x: "x = 0 \<or> x = 1" and rest: "\<forall>y \<in> set xs. y = 0 \<or> y = 1" by simp_all
  from Cons.IH [OF rest] x show ?case
    by (cases "xs = []") (auto simp: min_def)
qed

lemma erode_pixel_ones:
  assumes "length src = n" and "\<forall>r<n. length (src ! r) = n"
    and "\<forall>r<n. \<forall>c<n. src ! r ! c = 0 \<or> src ! r ! c = 1"
    and "r < n" and "c < n" and "a < k"
  shows "(erode_pixel src (replicate k (replicate k 1)) (a, a) r c = 1) =
         (\<forall>i<k. \<forall>j<k.
            0 \<le> int r + int i - int a \<and> int r + int i - int a < int n \<and>
            0 \<le> int c + int j - int a \<and> int c + int j - int a < int n \<longrightarrow>
            src ! nat (int r + int i - int a) ! nat (int c + int j - int a) = 1)"
proof -
  define xs where "xs =
    [src ! nat (int r + int i - int a) ! nat (int c + int j - int a).
       i \<leftarrow> [0..<k], j \<leftarrow> [0..<k],
       in_image src (int r + int i - int a) (int c + int j - int a)]"
  have ep: "erode_pixel src (replicate k (replicate k 1)) (a, a) r c = foldr min xs 255"
    unfolding erode_pixel_def xs_def
    by (rule arg_cong [where f = "\<lambda>l. foldr min l 255"])
      (auto intro!: arg_cong [where f = concat] map_cong)
  have inimg: "in_image src rr cc = (0 \<le> rr \<and> rr < int n \<and> 0 \<le> cc \<and> cc < int n)" for rr cc
    using assms(1,2) by (auto simp: in_image_def)
  have mem: "set xs = {src ! nat (int r + int i - int a) ! nat (int c + int j - int a) | i j.
      i < k \<and> j < k \<and> 0 \<le> int r + int i - int a \<and> int r + int i - int a < int n \<and>
      0 \<le> int c + int j - int a \<and> int c + int j - int a < int n}"
    unfolding xs_def
    apply (auto simp: inimg)
     apply blast
    subgoal for i j
      by (rule bexI [of _ i], rule bexI [of _ j]) simp_all
    done
  have px: "src ! nat rr ! nat cc = 0 \<or> src ! nat rr ! nat cc = 1"
    if "0 \<le> rr" "rr < int n" "0 \<le> cc" "cc < int n" for rr cc
  proof -
    from that have "nat rr < n" "nat cc < n" by linarith+
    with assms(3) show ?thesis by blast
  qed
  have bin: "\<forall>x \<in> set xs. x = 0 \<or> x = 1"
    unfolding mem using px by blast
  have self: "src ! r ! c \<in> set xs"
    unfolding mem using assms(4,5,6) by (auto intro!: exI [of _ a])
  then have ne: "xs \<noteq> []" by auto
  have "(foldr min xs 255 = 1) = (\<forall>x \<in> set xs. x = 1)"
    using foldr_min_binary [OF bin] ne by auto
  also have "\<dots> = (\<forall>i<k. \<forall>j<k.
            0 \<le> int r + int i - int a \<and> int r + int i - int a < int n \<and>
            0 \<le> int c + int j - int a \<and> int c + int j - int a < int n \<longrightarrow>
            src ! nat (int r + int i - int a) ! nat (int c + int j - int a) = 1)"
    unfolding mem by blast
  finally show ?thesis by (simp only: ep)
qed


lemma cv2_erode_ones_pixel:
  assumes "length src = n" and "\<forall>r<n. length (src ! r) = n"
    and "\<forall>r<n. \<forall>c<n. src ! r ! c = 0 \<or> src ! r ! c = 1"
    and "r < n" and "c < n" and "1 \<le> k"
  shows "(cv2_erode src (replicate k (replicate k 1)) (Suc 0) ! r ! c = 1) =
         (\<forall>i<k. \<forall>j<k.
            0 \<le> int r + int i - int (k div 2) \<and> int r + int i - int (k div 2) < int n \<and>
            0 \<le> int c + int j - int (k div 2) \<and> int c + int j - int (k div 2) < int n \<longrightarrow>
            src ! nat (int r + int i - int (k div 2)) ! nat (int c + int j - int (k div 2)) = 1)"
proof (cases "k = 1")
  case True
  with assms(4,5) show ?thesis
    by (simp add: cv2_erode_def)
next
  case False
  with assms(6) have k2: "2 \<le> k" by simp
  then have a: "k div 2 < k" by simp
  from k2 have "cv2_erode src (replicate k (replicate k 1)) (Suc 0) =
      erode_once (replicate k (replicate k 1)) (k div 2, k div 2) src"
    by (simp add: cv2_erode_def hd_replicate)
  then have "cv2_erode src (replicate k (replicate k 1)) (Suc 0) ! r ! c =
      erode_pixel src (replicate k (replicate k 1)) (k div 2, k div 2) r c"
    using assms(1,2,4,5) by (simp add: erode_once_def)
  then show ?thesis
    by (simp only: erode_pixel_ones [OF assms(1-5) a])
qed

text \<open>
  Claim C2, amended. For every valid configuration whose image side is at least 10, the
  mask is the annulus sector eroded in one call, with one iteration, by a square of ones
  whose side is \<open>int(0.1 \<times> curvilinear_image_size)\<close>, the product truncated and not
  rounded (the integer quotient of the side by 10): a pixel of the mask is 1 exactly
  when the sector is 1 on the whole window of that side around it (anchored at half the
  side), as far as the window lies in the image.
\<close>

theorem erosion_once_truncated_side:
  assumes "valid_config cfg" and "curvilinear_image_size cfg = Some n" and "10 \<le> n"
  shows "erosion_size n = n div 10 \<and>
         (\<exists>sector mask. annulus_sector rast cfg = Inr (n, sector) \<and>
            curvilinear_mask rast cfg = Inr mask \<and>
            mask = cv2_erode sector
                     (replicate (nat (n div 10)) (replicate (nat (n div 10)) 1)) 1 \<and>
            (\<forall>r<nat n. \<forall>c<nat n.
               (mask ! r ! c = 1) =
               (\<forall>i<nat (n div 10). \<forall>j<nat (n div 10).
                  0 \<le> int r + int i - int (nat (n div 10) div 2) \<and>
                  int r + int i - int (nat (n div 10) div 2) < n \<and>
                  0 \<le> int c + int j - int (nat (n div 10) div 2) \<and>
                  int c + int j - int (nat (n div 10) div 2) < n \<longrightarrow>
                  sector ! nat (int r + int i - int (nat (n div 10) div 2))
                         ! nat (int c + int j - int (nat (n div 10) div 2)) = 1)))"
proof -
  from assms(1) obtain a_min a_max r_start r_end c0 c1 where
    keys: "angle_min_degrees cfg = Some a_min" "angle_max_degrees cfg = Some a_max"
      "radius_start_pixels cfg = Some r_start" "radius_end_pixels cfg = Some r_end"
      "center_coordinate_pixel cfg = Some [c0, c1]"
    by (rule valid_config_keys)
  from assms(3) have pos: "0 < n" by simp
  then have side: "erosion_size n = n div 10"
    by (simp add: erosion_size_div)
  define k where "k = nat (n div 10)"
  from assms(3) have k1: "1 \<le> k" by (simp add: k_def)
  from annulus_sector_valid [OF assms(1,2) keys] obtain m where
    m: "annulus_sector rast cfg = Inr (n, m)" "length m = nat n"
      "\<forall>r<nat n. length (m ! r) = nat n"
      "\<forall>r<nat n. \<forall>c<nat n. m ! r ! c =
              (if r = 0 \<or> c = 0 \<or> r = nat n - 1 \<or> c = nat n - 1 then 0
               else if circle_region rast (c1, c0) r_start (- 1) r c then 0
               else if ellipse_region rast (c1, c0) (r_end, r_end) 0 (90 + a_min) (90 + a_max)
                         (- 1) r c then 1
               else 0)"
    by blast
  have bin: "\<forall>r<nat n. \<forall>c<nat n. m ! r ! c = 0 \<or> m ! r ! c = 1"
    using m(4) by simp
  define mask where "mask = cv2_erode m (replicate k (replicate k 1)) (Suc 0)"
  from pos have "0 \<le> n div 10" by simp
  with m(1) side have res: "curvilinear_mask rast cfg = Inr mask"
    by (simp add: curvilinear_mask_def np_full_def mask_def k_def)
  have px: "(mask ! r ! c = 1) =
         (\<forall>i<k. \<forall>j<k.
            0 \<le> int r + int i - int (k div 2) \<and> int r + int i - int (k div 2) < n \<and>
            0 \<le> int c + int j - int (k div 2) \<and> int c + int j - int (k div 2) < n \<longrightarrow>
            m ! nat (int r + int i - int (k div 2)) ! nat (int c + int j - int (k div 2)) = 1)"
    if "r < nat n" "c < nat n" for r c
    using cv2_erode_ones_pixel [OF m(2,3) bin that k1] pos by (simp add: mask_def)
  from side m(1) res px show ?thesis
    unfolding k_def [symmetric] mask_def by (intro conjI exI [of _ m] exI [of _ mask]) (simp_all add: mask_def)
qed


lemma wide_config_valid: "valid_config wide_config"
  by (simp add: valid_config_def wide_config_def quarter_config_def)

lemma wide_sector:
  "\<exists>m. annulus_sector exact_rasteriser wide_config = Inr (26, m) \<and>
       m ! 4 ! 1 = 1 \<and> m ! 4 ! 2 = 1 \<and> m ! 5 ! 1 = 1 \<and> m ! 5 ! 2 = 1 \<and> m ! 5 ! 0 = 0"
proof -
  have keys: "curvilinear_image_size wide_config = Some 26"
    "angle_min_degrees wide_config = Some 0" "angle_max_degrees wide_config = Some 90"
    "radius_start_pixels wide_config = Some 1" "radius_end_pixels wide_config = Some 8"
    "center_coordinate_pixel wide_config = Some [2, 2]"
    by (simp_all add: wide_config_def quarter_config_def)
  from annulus_sector_valid [OF wide_config_valid keys, of exact_rasteriser]
  obtain m where m: "annulus_sector exact_rasteriser wide_config = Inr (26, m)"
    and px: "\<forall>r<26. \<forall>c<26. m ! r ! c =
              (if r = 0 \<or> c = 0 \<or> r = 25 \<or> c = 25 then 0
               else if circle_region exact_rasteriser (2, 2) 1 (- 1) r c then 0
               else if ellipse_region exact_rasteriser (2, 2) (8, 8) 0 (90 + 0) (90 + 90)
                         (- 1) r c then 1
               else 0)"
    by auto
  from px have "m ! 4 ! 1 = 1" "m ! 4 ! 2 = 1" "m ! 5 ! 1 = 1" "m ! 5 ! 2 = 1" "m ! 5 ! 0 = 0"
    by (simp_all add: exact_rasteriser_def deg2rad_def)
  with m show ?thesis by blast
qed

text \<open>
  In an image of side 26 the structuring element has side 2 (the rounded tenth is 3). On
  the quarter sector, pixel \<open>(5, 2)\<close> keeps the value 1 (the sector is 1 on rows 4 and 5
  of columns 1 and 2) and pixel \<open>(5, 1)\<close> loses it (its window reaches column 0).
\<close>

theorem erosion_once_truncated_side_witness:
  "valid_config wide_config \<and> erosion_size 26 = 2 \<and> spec_erosion_size 26 = 3 \<and>
   (\<exists>sector mask. annulus_sector exact_rasteriser wide_config = Inr (26, sector) \<and>
      curvilinear_mask exact_rasteriser wide_config = Inr mask \<and>
      mask = cv2_erode sector [[1, 1], [1, 1]] 1 \<and>
      sector ! 5 ! 1 = 1 \<and> sector ! 5 ! 0 = 0 \<and> mask ! 5 ! 2 = 1 \<and> mask ! 5 ! 1 \<noteq> 1)"
proof -
  have size: "curvilinear_image_size wide_config = Some 26"
    by (simp add: wide_config_def quarter_config_def)
  have big: "(10 :: int) \<le> 26" by simp
  from erosion_once_truncated_side [OF wide_config_valid size big, of exact_rasteriser]
  obtain sector mask where
    side: "erosion_size 26 = 26 div 10" and
    s: "annulus_sector exact_rasteriser wide_config = Inr (26, sector)" and
    m: "curvilinear_mask exact_rasteriser wide_config = Inr mask"
       "mask = cv2_erode sector (replicate (nat (26 div 10)) (replicate (nat (26 div 10)) 1)) 1" and
    px: "\<forall>r<nat 26. \<forall>c<nat 26.
               (mask ! r ! c = 1) =
               (\<forall>i<nat (26 div 10). \<forall>j<nat (26 div 10).
                  0 \<le> int r + int i - int (nat (26 div 10) div 2) \<and>
                  int r + int i - int (nat (26 div 10) div 2) < 26 \<and>
                  0 \<le> int c + int j - int (nat (26 div 10) div 2) \<and>
                  int c + int j - int (nat (26 div 10) div 2) < 26 \<longrightarrow>
                  sector ! nat (int r + int i - int (nat (26 div 10) div 2))
                         ! nat (int c + int j - int (nat (26 div 10) div 2)) = 1)"
    by blast
  from wide_sector s have v: "sector ! 4 ! 1 = 1" "sector ! 4 ! 2 = 1" "sector ! 5 ! 1 = 1"
    "sector ! 5 ! 2 = 1" "sector ! 5 ! 0 = 0"
    by auto
  have two: "(\<forall>i<(2 :: nat). P i) = (P 0 \<and> P 1)" for P
    by (auto simp: less_2_cases_iff)
  from px [rule_format, of 5 2] v have a: "mask ! 5 ! 2 = 1"
    by (simp add: two)
  from px [rule_format, of 5 1] v have b: "mask ! 5 ! 1 \<noteq> 1"
    by (simp add: two)
  have k: "replicate (nat (26 div 10)) (replicate (nat (26 div 10)) (1 :: 8 word)) = [[1, 1], [1, 1]]"
    by (simp add: eval_nat_numeral)
  have sp: "spec_erosion_size 26 = 3"
    by (simp add: spec_erosion_size_def round_def)
  from side s m v a b sp show ?thesis
    unfolding k by (simp add: wide_config_valid)
qed

text \<open>
  Claim C2 as stated fails at \<open>curvilinear_image_size = 256\<close>: the program builds a
  structuring element of side 25, and \<open>round(0.1 \<times> 256)\<close> is 26.
\<close>

theorem erosion_side_not_rounded:
  "valid_config (quarter_config\<lparr>curvilinear_image_size := Some 256\<rparr>) \<and>
   np_full (1 :: 8 word) (erosion_size 256) (erosion_size 256) = Inr (replicate 25 (replicate 25 1)) \<and>
   spec_erosion_size 256 = 26"
  by (simp add: valid_config_def quarter_config_def erosion_size_def py_int_def
      spec_erosion_size_def round_def np_full_def)

section \<open>Properties of the interpolation weights and of the forward conversion\<close>

lemma mapE_Inr:
  assumes "\<forall>x \<in> set xs. f x = Inr (g x)"
  shows "mapE f xs = Inr (map g xs)"
  using assms by (induction xs) simp_all

lemma subscript_in_range:
  assumes "- int (length xs) \<le> i" and "i < int (length xs)"
  shows "subscript xs i =
           Inr (xs ! (if 0 \<le> i then nat i else nat (int (length xs) + i)))"
  using assms by (simp add: subscript_def)

lemma zip_concat:
  assumes "map length xss = map length yss"
  shows "zip (concat xss) (concat yss) = concat (map2 zip xss yss)"
  using assms
proof (induction xss arbitrary: yss)
  case Nil
  then show ?case by simp
next
  case (Cons xs xss)
  then obtain ys yss' where "yss = ys # yss'" by (cases yss) auto
  with Cons show ?case by simp
qed

lemma concat_grid:
  "concat (map (\<lambda>i. map (f i) [0..<n]) [0..<m]) = map (\<lambda>k. f (k div n) (k mod n)) [0..<m * n]"
proof (induction m)
  case 0
  then show ?case by simp
next
  case (Suc m)
  have "[0..<m * n + n] = [0..<m * n] @ [m * n..<m * n + n]"
    by (rule upt_add_eq_append) simp
  moreover have "[m * n..<m * n + n] = map (\<lambda>j. j + m * n) [0..<n]"
    by (simp only: map_add_upt add.commute [of n])
  ultimately have "[0..<Suc m * n] = [0..<m * n] @ map (\<lambda>j. j + m * n) [0..<n]"
    by (simp only: mult_Suc add.commute [of n])
  then have "map (\<lambda>k. f (k div n) (k mod n)) [0..<Suc m * n] =
             map (\<lambda>k. f (k div n) (k mod n)) [0..<m * n] @ map (f m) [0..<n]"
    by (simp add: comp_def)
  with Suc show ?case by simp
qed

lemma zip_grid:
  "map2 zip (map (\<lambda>i. replicate n (real i)) [0..<n]) (replicate n (map real [0..<n])) =
   map (\<lambda>i. map (\<lambda>j. (real i, real j)) [0..<n]) [0..<n]"
proof -
  have row: "zip (replicate n v) (map real [0..<n]) = map (\<lambda>j. (v, real j)) [0..<n]" for v :: real
    using zip_replicate_left [of "map real [0..<n]" v] by (simp add: comp_def)
  have "zip (map (\<lambda>i. replicate n (real i)) [0..<n]) (replicate n (map real [0..<n])) =
        map (\<lambda>x. (x, map real [0..<n])) (map (\<lambda>i. replicate n (real i)) [0..<n])"
    using zip_replicate_right [of "map (\<lambda>i. replicate n (real i)) [0..<n]" "map real [0..<n]"]
    by simp
  then show ?thesis by (simp add: comp_def row)
qed

lemma pixel_grid_eq:
  assumes "0 \<le> n"
  shows "\<exists>gx gy. mgrid n = Inr (gx, gy) \<and> vstack_T (concat gx) (concat gy) = pixel_grid n"
proof -
  have "zip (concat (map (\<lambda>i. replicate (nat n) (real i)) [0..<nat n]))
            (concat (replicate (nat n) (map real [0..<nat n]))) =
        concat (map2 zip (map (\<lambda>i. replicate (nat n) (real i)) [0..<nat n])
                         (replicate (nat n) (map real [0..<nat n])))"
    by (rule zip_concat) (simp add: comp_def map_replicate_const)
  also have "\<dots> = concat (map (\<lambda>i. map (\<lambda>j. (real i, real j)) [0..<nat n]) [0..<nat n])"
    by (simp only: zip_grid)
  finally have "vstack_T (concat (map (\<lambda>i. replicate (nat n) (real i)) [0..<nat n]))
            (concat (replicate (nat n) (map real [0..<nat n]))) =
        concat (map (\<lambda>i. map (\<lambda>j. [real i, real j]) [0..<nat n]) [0..<nat n])"
    by (simp add: vstack_T_def map_concat comp_def)
  with assms show ?thesis
    by (simp add: mgrid_def pixel_grid_def concat_grid)
qed


lemma mapE_map_Inr:
  assumes "\<forall>x \<in> set xs. f (h x) = Inr (g x)"
  shows "mapE f (map h xs) = Inr (map g xs)"
  using assms by (induction xs) simp_all

lemma map2_map_map: "map2 f (map g xs) (map h xs) = map (\<lambda>x. f (g x) (h x)) xs"
  by (induction xs) simp_all

lemma map2_self_map: "map2 f xs (map h xs) = map (\<lambda>x. f x (h x)) xs"
  by (induction xs) simp_all

lemma selected_less:
  assumes "triangulation_ok N tri"
  shows "selected tri p < length (simplices tri)"
proof -
  from assms have "- 1 \<le> find_simplex tri p" "find_simplex tri p < int (length (simplices tri))"
    "simplices tri \<noteq> []"
    by (simp_all add: triangulation_ok_def)
  then show ?thesis
    by (cases "simplices tri") (auto simp: selected_def)
qed

lemma subscript_selected:
  assumes "triangulation_ok N tri" and "length xs = length (simplices tri)"
  shows "subscript xs (find_simplex tri p) = Inr (xs ! selected tri p)"
proof -
  from assms have "- 1 \<le> find_simplex tri p" "find_simplex tri p < int (length xs)" "xs \<noteq> []"
    by (auto simp: triangulation_ok_def)
  then have "- int (length xs) \<le> find_simplex tri p"
    by (cases xs) auto
  with \<open>find_simplex tri p < int (length xs)\<close> show ?thesis
    using assms(2) by (simp add: subscript_in_range selected_def)
qed

lemma weights_structure:
  assumes "curvilinear_image_size cfg = Some n"
    and "scan_conversion_inverse cfg = Inr (xc, yc)"
    and "Delaunay (vstack_T (concat xc) (concat yc)) = Inr tri"
    and "triangulation_ok N tri" and "0 \<le> n"
  shows "scan_interpolation_weights Delaunay cfg =
           Inr (map (\<lambda>p. simplices tri ! selected tri p) (pixel_grid n),
                map (\<lambda>p. barycentric (transform tri ! selected tri p) p) (pixel_grid n))"
proof -
  from pixel_grid_eq [OF assms(5)] obtain gx gy where
    g: "mgrid n = Inr (gx, gy)" and px: "vstack_T (concat gx) (concat gy) = pixel_grid n"
    by blast
  define P where "P = pixel_grid n"
  define t where "t = (\<lambda>p. transform tri ! selected tri p)"
  have lt: "length (transform tri) = length (simplices tri)"
    using assms(4) by (simp add: triangulation_ok_def)
  have vs: "mapE (subscript (simplices tri)) (map (find_simplex tri) P) =
            Inr (map (\<lambda>p. simplices tri ! selected tri p) P)"
    by (rule mapE_map_Inr) (simp add: subscript_selected [OF assms(4)])
  have ts: "mapE (subscript (transform tri)) (map (find_simplex tri) P) = Inr (map t P)"
    unfolding t_def by (rule mapE_map_Inr) (simp add: subscript_selected [OF assms(4) lt])
  have t3: "length (t p) = 3" for p
  proof -
    have "t p \<in> set (transform tri)"
      unfolding t_def using selected_less [OF assms(4), of p] lt by simp
    with assms(4) show ?thesis by (simp add: triangulation_ok_def)
  qed
  have off: "mapE (\<lambda>t. subscript t 2) (map t P) = Inr (map (\<lambda>p. t p ! 2) P)"
    by (rule mapE_map_Inr) (simp add: subscript_def t3)
  have Y: "map2 (map2 (-)) P (map (\<lambda>p. t p ! 2) P) = map (\<lambda>p. map2 (-) p (t p ! 2)) P"
    by (rule map2_self_map)
  have b: "einsum_ijk_ik (map (take 2) (map t P)) (map (\<lambda>p. map2 (-) p (t p ! 2)) P) =
           map (\<lambda>p. map (\<lambda>row. sum_list (map2 (*) row (map2 (-) p (t p ! 2)))) (take 2 (t p))) P"
    unfolding einsum_ijk_ik_def map_map comp_def by (rule map2_map_map)
  have w: "map (\<lambda>bi. bi @ [1 - sum_list bi])
             (map (\<lambda>p. map (\<lambda>row. sum_list (map2 (*) row (map2 (-) p (t p ! 2)))) (take 2 (t p))) P) =
           map (\<lambda>p. barycentric (t p) p) P"
    by (simp add: barycentric_def Let_def comp_def)
  show ?thesis
    unfolding scan_interpolation_weights_def
    by (simp only: assms(1-3) g px getitem_Some bindE_Inr Let_def prod.case
        P_def [symmetric] vs ts off Y b w) (simp add: t_def P_def)
qed


lemma barycentric_row:
  assumes "length t = 3"
  shows "\<exists>b0 b1. barycentric t p = [b0, b1, 1 - (b0 + b1)]"
proof -
  from assms obtain r0 r1 r2 where "t = [r0, r1, r2]"
    by (cases t; cases "tl t"; cases "tl (tl t)") auto
  then show ?thesis
    by (simp add: barycentric_def Let_def eval_nat_numeral)
qed

lemma length_concat_grid: "length (concat (map (\<lambda>v. map (g v) a) b)) = length b * length a"
  by (induction b) simp_all

lemma sample_points_length:
  assumes "valid_config cfg" and "num_lines cfg = Some L" and "num_samples_along_lines cfg = Some S"
  shows "\<exists>xc yc. scan_conversion_inverse cfg = Inr (xc, yc) \<and>
           sample_points cfg = vstack_T (concat xc) (concat yc) \<and>
           length (sample_points cfg) = nat L * nat S"
proof -
  from assms(1) obtain a_min a_max r_start r_end c0 c1 where
    keys: "angle_min_degrees cfg = Some a_min" "angle_max_degrees cfg = Some a_max"
      "radius_start_pixels cfg = Some r_start" "radius_end_pixels cfg = Some r_end"
      "center_coordinate_pixel cfg = Some [c0, c1]"
    by (rule valid_config_keys)
  from scan_conversion_inverse_valid [OF assms(1) keys(1-4) assms(2,3) keys(5)]
  obtain angles radii where
    a: "linspace (deg2rad a_min) (deg2rad a_max) S = Inr angles" and
    r: "linspace (real_of_int r_start) (real_of_int r_end) L = Inr radii" and
    res: "scan_conversion_inverse cfg =
             Inr (map (\<lambda>v. map (\<lambda>th. v * cos th + real_of_int c0) angles) radii,
                  map (\<lambda>v. map (\<lambda>th. v * sin th + real_of_int c1) angles) radii)"
    by blast
  have "length angles = nat S" "length radii = nat L"
    using a r by (simp_all add: linspace_length)
  then show ?thesis
    unfolding sample_points_def res
    by (simp add: vstack_T_def length_concat_grid)
qed

lemma map2_map_left: "map2 f (map h xs) ys = map2 (\<lambda>x y. f (h x) y) xs ys"
proof (induction xs arbitrary: ys)
  case Nil
  then show ?case by simp
next
  case (Cons x xs)
  then show ?case by (cases ys) simp_all
qed

lemma scan_convert_shaped:
  assumes "curvilinear_image_size cfg = Some n" and "0 \<le> n"
    and "length vs = nat n * nat n" and "map length vs = map length ws"
    and "\<forall>row \<in> set vs. \<forall>v \<in> set row. 0 \<le> v \<and> v < int (length (concat data))"
  shows "scan_convert data cfg vs ws =
           Inr (map (\<lambda>i. take (nat n) (drop (i * nat n)
                  (map2 (\<lambda>u w. sum_list (map2 (*) (map (\<lambda>v. concat data ! nat v) u) w)) vs ws)))
                [0..<nat n])"
proof -
  define z where "z = concat data"
  have row: "mapE (subscript z) u = Inr (map (\<lambda>v. z ! nat v) u)" if "u \<in> set vs" for u
    by (rule mapE_Inr) (use that assms(5) in \<open>simp add: subscript_def z_def\<close>)
  have taken: "mapE (mapE (subscript z)) vs = Inr (map (map (\<lambda>v. z ! nat v)) vs)"
    by (rule mapE_Inr) (simp add: row)
  have shape: "map length (map (map (\<lambda>v. z ! nat v)) vs) = map length ws"
    using assms(4) by (simp add: comp_def)
  from assms(4) have "length (map length vs) = length (map length ws)" by simp
  then have len: "length ws = length vs" by simp
  define zi where
    "zi = map2 (\<lambda>u w. sum_list (map2 (*) (map (\<lambda>v. z ! nat v) u) w)) vs ws"
  have ein: "einsum_ij_ij (map (map (\<lambda>v. z ! nat v)) vs) ws = Inr zi"
    unfolding einsum_ij_ij_def zi_def using shape by (simp add: map2_map_left)
  have lz: "length zi = nat n * nat n"
    using len assms(3) by (simp add: zi_def)
  have "scan_convert data cfg vs ws = reshape2 zi n n"
    unfolding scan_convert_def Let_def z_def [symmetric]
    by (simp only: taken ein assms(1) getitem_Some bindE_Inr)
  also have "\<dots> = Inr (map (\<lambda>i. take (nat n) (drop (i * nat n) zi)) [0..<nat n])"
    using lz assms(2) by (simp add: reshape2_def)
  finally show ?thesis by (simp only: zi_def z_def)
qed


lemma vertex_row:
  assumes "triangulation_ok N tri"
  shows "length (simplices tri ! selected tri p) = 3 \<and>
         (\<forall>v \<in> set (simplices tri ! selected tri p). 0 \<le> v \<and> v < int N)"
proof -
  have "simplices tri ! selected tri p \<in> set (simplices tri)"
    using selected_less [OF assms, of p] by simp
  with assms show ?thesis by (simp add: triangulation_ok_def)
qed

lemma weight_row:
  assumes "triangulation_ok N tri"
  shows "\<exists>b0 b1. barycentric (transform tri ! selected tri p) p = [b0, b1, 1 - (b0 + b1)]"
proof -
  from assms have lt: "length (transform tri) = length (simplices tri)"
    by (simp add: triangulation_ok_def)
  have "transform tri ! selected tri p \<in> set (transform tri)"
    using selected_less [OF assms, of p] lt by simp
  with assms have "length (transform tri ! selected tri p) = 3"
    by (simp add: triangulation_ok_def)
  then show ?thesis by (rule barycentric_row)
qed

lemma weights_computed:
  assumes "valid_config cfg" and "curvilinear_image_size cfg = Some n"
    and "num_lines cfg = Some L" and "num_samples_along_lines cfg = Some S"
    and "Delaunay (sample_points cfg) = Inr tri"
    and "triangulation_ok (length (sample_points cfg)) tri"
  shows "scan_interpolation_weights Delaunay cfg =
           Inr (map (\<lambda>p. simplices tri ! selected tri p) (pixel_grid n),
                map (\<lambda>p. barycentric (transform tri ! selected tri p) p) (pixel_grid n))"
proof -
  from sample_points_length [OF assms(1,3,4)] obtain xc yc where
    g: "scan_conversion_inverse cfg = Inr (xc, yc)"
      "sample_points cfg = vstack_T (concat xc) (concat yc)"
    by blast
  from assms(5) g(2) have D: "Delaunay (vstack_T (concat xc) (concat yc)) = Inr tri"
    by simp
  from assms(1,2) have n0: "0 \<le> n"
    by (simp add: valid_config_def)
  show ?thesis
    by (rule weights_structure [where xc = xc and yc = yc and N = "length (sample_points cfg)"])
      (fact assms(2) g(1) D assms(6) n0)+
qed




lemma pixel_grid_length [simp]: "length (pixel_grid n) = nat n * nat n"
  by (simp add: pixel_grid_def)

lemma flat_index_less:
  assumes "r < (m :: nat)" and "c < m"
  shows "r * m + c < m * m"
proof -
  from assms(1) have "Suc r * m \<le> m * m"
    by (metis Suc_leI mult.commute mult_le_mono2)
  with assms(2) show ?thesis by simp
qed

lemma pixel_grid_nth:
  assumes "r < nat n" and "c < nat n"
  shows "pixel_grid n ! (r * nat n + c) = [real r, real c]"
  using assms flat_index_less [OF assms] by (simp add: pixel_grid_def)



lemma mapE_IndexError:
  assumes "\<forall>x \<in> set xs. f x = Inl IndexError \<or> (\<exists>y. f x = Inr y)"
    and "\<exists>x \<in> set xs. f x = Inl IndexError"
  shows "mapE f xs = Inl IndexError"
  using assms
proof (induction xs)
  case Nil
  then show ?case by simp
next
  case (Cons x xs)
  show ?case
  proof (cases "f x")
    case (Inl e)
    with Cons.prems(1) show ?thesis by auto
  next
    case (Inr y)
    with Cons.prems have "\<exists>x \<in> set xs. f x = Inl IndexError" by auto
    with Cons have "mapE f xs = Inl IndexError" by simp
    with Inr show ?thesis by simp
  qed
qed

lemma mapE_total:
  "mapE f xs = Inl IndexError \<or> (\<exists>ys. mapE f xs = Inr ys)"
  if "\<forall>x \<in> set xs. f x = Inl IndexError \<or> (\<exists>y. f x = Inr y)"
  using that
proof (induction xs)
  case Nil
  then show ?case by simp
next
  case (Cons x xs)
  then show ?case by (cases "f x"; cases "mapE f xs") auto
qed

lemma subscript_cases: "subscript xs i = Inl IndexError \<or> (\<exists>y. subscript xs i = Inr y)"
  by (simp add: subscript_def)

lemma scan_convert_out_of_range:
  assumes "\<exists>row \<in> set vs. \<exists>v \<in> set row. 0 \<le> v \<and> int (length (concat data)) \<le> v"
  shows "scan_convert data cfg vs ws = Inl IndexError"
proof -
  define z where "z = concat data"
  from assms obtain row v where rv: "row \<in> set vs" "v \<in> set row" "0 \<le> v" "int (length z) \<le> v"
    by (auto simp: z_def)
  then have "subscript z v = Inl IndexError"
    by (simp add: subscript_def)
  with rv(2) have "mapE (subscript z) row = Inl IndexError"
    by (intro mapE_IndexError) (auto simp: subscript_cases)
  with rv(1) have "mapE (mapE (subscript z)) vs = Inl IndexError"
    by (intro mapE_IndexError) (auto simp: mapE_total subscript_cases)
  then show ?thesis
    by (simp add: scan_convert_def z_def)
qed

lemma locate_range: "locate k ts p = - 1 \<or> (k \<le> locate k ts p \<and> locate k ts p < k + int (length ts))"
  by (induction ts arbitrary: k) (auto, force+)


subsection \<open>The quarter sector\<close>

lemma quarter_grid:
  "scan_conversion_inverse quarter_config = Inr ([[3, 2], [10, 2]], [[2, 3], [2, 10]])"
  by (simp add: scan_conversion_inverse_def quarter_config_def linspace_def deg2rad_def
      meshgrid_def subscript_def upt_conv_Cons)

lemma quarter_points: "sample_points quarter_config = [[3, 2], [2, 3], [10, 2], [2, 10]]"
  by (simp add: sample_points_def quarter_grid vstack_T_def)

lemma quarter_keys:
  "curvilinear_image_size quarter_config = Some 10"
  "num_lines quarter_config = Some 2" "num_samples_along_lines quarter_config = Some 2"
  by (simp_all add: quarter_config_def)

lemma quarter_Delaunay_points:
  "quarter_Delaunay (sample_points quarter_config) = Inr quarter_triangulation"
  by (simp add: quarter_points quarter_Delaunay_def)

lemma quarter_triangulation_ok:
  "triangulation_ok (length (sample_points quarter_config)) quarter_triangulation"
proof -
  have "- 1 \<le> locate 0 quarter_transform p \<and> locate 0 quarter_transform p < 2" for p
    using locate_range [of 0 quarter_transform p] by (auto simp: quarter_transform_def)
  then show ?thesis
    by (simp add: triangulation_ok_def quarter_triangulation_def quarter_points)
      (simp add: quarter_transform_def)
qed

lemma quarter_find:
  "find_simplex quarter_triangulation [5, 5] = 1"
  "find_simplex quarter_triangulation [0, 0] = - 1"
  by (simp_all add: quarter_triangulation_def quarter_transform_def barycentric_def
      eval_nat_numeral)

subsection \<open>The claims on the weights\<close>

text \<open>
  The theorems of this part take the answer of \<open>Delaunay\<close> on the sample points as
  given: they hold for every valid configuration on whose sample points the
  triangulation succeeds, and for every answer that has the documented shape
  (\<open>triangulation_ok\<close>).

  Claim C5, amended. For every valid configuration on whose sample points the Delaunay
  triangulation succeeds, the vertices and the weights each have shape
  \<open>(curvilinear_image_size\<^sup>2, 3)\<close>, and for every output pixel inside the hull (where
  \<open>find_simplex\<close> is not negative) the vertex row is the located triangle, the three
  coefficients sum to 1 and the third is 1 minus the sum of the first two.
\<close>

theorem weights_shape_and_barycentric_rows:
  assumes "valid_config cfg" and "curvilinear_image_size cfg = Some n"
    and "num_lines cfg = Some L" and "num_samples_along_lines cfg = Some S"
    and "Delaunay (sample_points cfg) = Inr tri"
    and "triangulation_ok (length (sample_points cfg)) tri"
  shows "\<exists>vs ws. scan_interpolation_weights Delaunay cfg = Inr (vs, ws) \<and>
           length vs = nat n * nat n \<and> length ws = nat n * nat n \<and>
           (\<forall>row \<in> set vs. length row = 3) \<and> (\<forall>w \<in> set ws. length w = 3) \<and>
           (\<forall>r<nat n. \<forall>c<nat n. 0 \<le> find_simplex tri [real r, real c] \<longrightarrow>
              vs ! (r * nat n + c) = simplices tri ! nat (find_simplex tri [real r, real c]) \<and>
              sum_list (ws ! (r * nat n + c)) = 1 \<and>
              ws ! (r * nat n + c) ! 2 = 1 - (ws ! (r * nat n + c) ! 0 + ws ! (r * nat n + c) ! 1))"
proof -
  let ?N = "length (sample_points cfg)"
  define vs where "vs = map (\<lambda>p. simplices tri ! selected tri p) (pixel_grid n)"
  define ws where "ws = map (\<lambda>p. barycentric (transform tri ! selected tri p) p) (pixel_grid n)"
  have res: "scan_interpolation_weights Delaunay cfg = Inr (vs, ws)"
    unfolding vs_def ws_def
    by (rule weights_computed [where Delaunay = Delaunay and cfg = cfg, OF assms])
  have len: "length vs = nat n * nat n" "length ws = nat n * nat n"
    by (simp_all add: vs_def ws_def)
  have v3: "\<forall>row \<in> set vs. length row = 3"
    using vertex_row [OF assms(6)] by (auto simp: vs_def)
  have l3: "length (barycentric (transform tri ! selected tri p) p) = 3" for p
    using weight_row [OF assms(6), of p] by auto
  have w3: "\<forall>w \<in> set ws. length w = 3"
    by (auto simp: ws_def l3)
  have px: "vs ! (r * nat n + c) = simplices tri ! nat (find_simplex tri [real r, real c]) \<and>
            sum_list (ws ! (r * nat n + c)) = 1 \<and>
            ws ! (r * nat n + c) ! 2 = 1 - (ws ! (r * nat n + c) ! 0 + ws ! (r * nat n + c) ! 1)"
    if "r < nat n" "c < nat n" "0 \<le> find_simplex tri [real r, real c]" for r c
  proof -
    let ?p = "[real r, real c]"
    have k: "r * nat n + c < nat n * nat n"
      using that(1,2) by (rule flat_index_less)
    have v: "vs ! (r * nat n + c) = simplices tri ! selected tri ?p"
      using k by (simp add: vs_def pixel_grid_nth [OF that(1,2)])
    have w: "ws ! (r * nat n + c) = barycentric (transform tri ! selected tri ?p) ?p"
      using k by (simp add: ws_def pixel_grid_nth [OF that(1,2)])
    from weight_row [OF assms(6), of ?p] obtain b0 b1 where
      "barycentric (transform tri ! selected tri ?p) ?p = [b0, b1, 1 - (b0 + b1)]"
      by blast
    with v w that(3) show ?thesis
      by (simp add: selected_def)
  qed
  from res len v3 w3 px show ?thesis by blast
qed


text \<open>
  On the quarter sector, pixel \<open>(5, 5)\<close> lies in the second triangle, whose vertices
  are the points 1, 2 and 3.
\<close>

theorem weights_shape_and_barycentric_rows_witness:
  "valid_config quarter_config \<and>
   quarter_Delaunay (sample_points quarter_config) = Inr quarter_triangulation \<and>
   triangulation_ok (length (sample_points quarter_config)) quarter_triangulation \<and>
   find_simplex quarter_triangulation [5, 5] = 1 \<and>
   (\<exists>vs ws. scan_interpolation_weights quarter_Delaunay quarter_config = Inr (vs, ws) \<and>
      length vs = 100 \<and> length ws = 100 \<and> vs ! 55 = [1, 2, 3] \<and>
      sum_list (ws ! 55) = 1 \<and> ws ! 55 ! 2 = 1 - (ws ! 55 ! 0 + ws ! 55 ! 1))"
proof -
  from weights_shape_and_barycentric_rows [where Delaunay = quarter_Delaunay,
      OF quarter_config_valid quarter_keys quarter_Delaunay_points quarter_triangulation_ok]
  obtain vs ws where
    res: "scan_interpolation_weights quarter_Delaunay quarter_config = Inr (vs, ws)"
      "length vs = nat 10 * nat 10" "length ws = nat 10 * nat 10"
    and px: "\<forall>r<nat 10. \<forall>c<nat 10. 0 \<le> find_simplex quarter_triangulation [real r, real c] \<longrightarrow>
              vs ! (r * nat 10 + c) =
                simplices quarter_triangulation ! nat (find_simplex quarter_triangulation [real r, real c]) \<and>
              sum_list (ws ! (r * nat 10 + c)) = 1 \<and>
              ws ! (r * nat 10 + c) ! 2 = 1 - (ws ! (r * nat 10 + c) ! 0 + ws ! (r * nat 10 + c) ! 1)"
    by blast
  from px [rule_format, of 5 5] have
    "vs ! 55 = [1, 2, 3] \<and> sum_list (ws ! 55) = 1 \<and> ws ! 55 ! 2 = 1 - (ws ! 55 ! 0 + ws ! 55 ! 1)"
    by (simp add: quarter_find) (simp add: quarter_triangulation_def)
  with res show ?thesis
    by (simp add: quarter_config_valid quarter_Delaunay_points quarter_triangulation_ok
        quarter_find)
qed

lemma two_point_grid:
  "scan_conversion_inverse two_point_config = Inr ([[3, 2]], [[2, 3]])"
  by (simp add: scan_conversion_inverse_def two_point_config_def quarter_config_def linspace_def
      deg2rad_def meshgrid_def subscript_def upt_conv_Cons)

text \<open>
  Claim C5 as stated fails on the quarter sector with a single line: the configuration
  is valid, its two sample points cannot be triangulated, and the exception of
  \<open>Delaunay\<close> leaves \<open>scan_interpolation_weights\<close>, which returns nothing.
\<close>

theorem weights_need_a_triangulation:
  "valid_config two_point_config \<and>
   sample_points two_point_config = [[3, 2], [2, 3]] \<and>
   quarter_Delaunay (sample_points two_point_config) = Inl QhullError \<and>
   scan_interpolation_weights quarter_Delaunay two_point_config = Inl QhullError"
proof -
  have v: "valid_config two_point_config"
    by (simp add: valid_config_def two_point_config_def quarter_config_def)
  have p: "sample_points two_point_config = [[3, 2], [2, 3]]"
    by (simp add: sample_points_def two_point_grid vstack_T_def)
  have d: "quarter_Delaunay [[3, 2], [2, 3]] = Inl QhullError"
    by (simp add: quarter_Delaunay_def)
  have "scan_interpolation_weights quarter_Delaunay two_point_config = Inl QhullError"
    by (simp add: scan_interpolation_weights_def two_point_grid vstack_T_def d)
      (simp add: two_point_config_def quarter_config_def)
  with v p d show ?thesis by simp
qed






text \<open>
  Claim C7, amended. \<open>scan_convert\<close> does not compare the shape of \<open>linear_data\<close>
  with the grid of the weights: it reads the flattened data at the vertex indices. When
  every vertex index is below the number of elements, whatever the shape, it returns an
  image of side \<open>curvilinear_image_size\<close>, the same image as for any other array with
  the same flattening; otherwise it raises \<open>IndexError\<close>.
\<close>

theorem scan_convert_reads_flattened_data:
  assumes "valid_config cfg" and "curvilinear_image_size cfg = Some n"
    and "num_lines cfg = Some L" and "num_samples_along_lines cfg = Some S"
    and "Delaunay (sample_points cfg) = Inr tri"
    and "triangulation_ok (length (sample_points cfg)) tri"
  shows "\<exists>vs ws. scan_interpolation_weights Delaunay cfg = Inr (vs, ws) \<and>
           (if \<forall>row \<in> set vs. \<forall>v \<in> set row. v < int (length (concat linear_data))
            then \<exists>img. scan_convert linear_data cfg vs ws = Inr img \<and> length img = nat n \<and>
                   (\<forall>row \<in> set img. length row = nat n) \<and>
                   (\<forall>other. concat other = concat linear_data \<longrightarrow>
                      scan_convert other cfg vs ws = Inr img)
            else scan_convert linear_data cfg vs ws = Inl IndexError)"
proof -
  define vs where "vs = map (\<lambda>p. simplices tri ! selected tri p) (pixel_grid n)"
  define ws where "ws = map (\<lambda>p. barycentric (transform tri ! selected tri p) p) (pixel_grid n)"
  have res: "scan_interpolation_weights Delaunay cfg = Inr (vs, ws)"
    unfolding vs_def ws_def
    by (rule weights_computed [where Delaunay = Delaunay and cfg = cfg, OF assms])
  from assms(1,2) have n0: "0 \<le> n" by (simp add: valid_config_def)
  have lv: "length vs = nat n * nat n"
    by (simp add: vs_def)
  have l3: "length (barycentric (transform tri ! selected tri p) p) = 3" for p
    using weight_row [OF assms(6), of p] by auto
  have shape: "map length vs = map length ws"
    by (simp add: vs_def ws_def comp_def l3 vertex_row [OF assms(6)])
  have nonneg: "\<forall>row \<in> set vs. \<forall>v \<in> set row. 0 \<le> v"
    using vertex_row [OF assms(6)] by (auto simp: vs_def)
  show ?thesis
  proof (cases "\<forall>row \<in> set vs. \<forall>v \<in> set row. v < int (length (concat linear_data))")
    case True
    define out where "out = (\<lambda>z. map (\<lambda>i. take (nat n) (drop (i * nat n)
        (map2 (\<lambda>u w. sum_list (map2 (*) (map (\<lambda>v. (z :: real list) ! nat v) u) w)) vs ws)))
        [0..<nat n])"
    have conv: "scan_convert d cfg vs ws = Inr (out (concat linear_data))"
      if "concat d = concat linear_data" for d
    proof -
      from True nonneg that
      have "\<forall>row \<in> set vs. \<forall>v \<in> set row. 0 \<le> v \<and> v < int (length (concat d))"
        by simp
      from scan_convert_shaped [OF assms(2) n0 lv shape this] that show ?thesis
        by (simp add: out_def)
    qed
    have len: "length (out (concat linear_data)) = nat n"
      by (simp add: out_def)
    from shape have "length (map length vs) = length (map length ws)" by simp
    then have lz: "length (zip vs ws) = nat n * nat n"
      using lv by simp
    have room: "nat n \<le> nat n * nat n - i * nat n" if "i < nat n" for i
    proof -
      from that have "Suc i * nat n \<le> nat n * nat n"
        by (metis Suc_leI mult.commute mult_le_mono2)
      then show ?thesis by simp
    qed
    have rows: "\<forall>row \<in> set (out (concat linear_data)). length row = nat n"
    proof
      fix row assume "row \<in> set (out (concat linear_data))"
      then obtain i where i: "i < nat n" and
        row: "row = take (nat n) (drop (i * nat n)
          (map2 (\<lambda>u w. sum_list (map2 (*) (map (\<lambda>v. concat linear_data ! nat v) u) w)) vs ws))"
        by (auto simp: out_def)
      from room [OF i] lz show "length row = nat n"
        by (simp add: row)
    qed
    have same: "\<forall>other. concat other = concat linear_data \<longrightarrow>
        scan_convert other cfg vs ws = Inr (out (concat linear_data))"
      using conv by blast
    have "\<exists>img. scan_convert linear_data cfg vs ws = Inr img \<and> length img = nat n \<and>
            (\<forall>row \<in> set img. length row = nat n) \<and>
            (\<forall>other. concat other = concat linear_data \<longrightarrow> scan_convert other cfg vs ws = Inr img)"
      using conv [OF refl] len rows same by blast
    then have "if \<forall>row \<in> set vs. \<forall>v \<in> set row. v < int (length (concat linear_data))
            then \<exists>img. scan_convert linear_data cfg vs ws = Inr img \<and> length img = nat n \<and>
                   (\<forall>row \<in> set img. length row = nat n) \<and>
                   (\<forall>other. concat other = concat linear_data \<longrightarrow>
                      scan_convert other cfg vs ws = Inr img)
            else scan_convert linear_data cfg vs ws = Inl IndexError"
      unfolding if_P [OF True] .
    with res show ?thesis by blast
  next
    case False
    with nonneg have
      "\<exists>row \<in> set vs. \<exists>v \<in> set row. 0 \<le> v \<and> int (length (concat linear_data)) \<le> v"
      by (meson not_less)
    from scan_convert_out_of_range [OF this] have
      "scan_convert linear_data cfg vs ws = Inl IndexError" .
    then have "if \<forall>row \<in> set vs. \<forall>v \<in> set row. v < int (length (concat linear_data))
            then \<exists>img. scan_convert linear_data cfg vs ws = Inr img \<and> length img = nat n \<and>
                   (\<forall>row \<in> set img. length row = nat n) \<and>
                   (\<forall>other. concat other = concat linear_data \<longrightarrow>
                      scan_convert other cfg vs ws = Inr img)
            else scan_convert linear_data cfg vs ws = Inl IndexError"
      unfolding if_not_P [OF False] .
    with res show ?thesis by blast
  qed
qed


lemma quarter_weights:
  "scan_interpolation_weights quarter_Delaunay quarter_config =
     Inr (map (\<lambda>p. simplices quarter_triangulation ! selected quarter_triangulation p)
            (pixel_grid 10),
          map (\<lambda>p. barycentric (transform quarter_triangulation ! selected quarter_triangulation p) p)
            (pixel_grid 10))"
  by (rule weights_computed [where Delaunay = quarter_Delaunay,
        OF quarter_config_valid quarter_keys quarter_Delaunay_points quarter_triangulation_ok])

lemma quarter_vertices_in_range:
  "\<forall>row \<in> set (map (\<lambda>p. simplices quarter_triangulation ! selected quarter_triangulation p)
            (pixel_grid 10)). \<forall>v \<in> set row. 0 \<le> v \<and> v < 4"
  using vertex_row [OF quarter_triangulation_ok] by (auto simp: quarter_points)

text \<open>
  On the quarter sector, data of shape \<open>(1, 4)\<close> is converted, to the image the
  \<open>(2, 2)\<close> array of the same elements gives.
\<close>

theorem scan_convert_reads_flattened_data_witness:
  "valid_config quarter_config \<and>
   quarter_Delaunay (sample_points quarter_config) = Inr quarter_triangulation \<and>
   triangulation_ok (length (sample_points quarter_config)) quarter_triangulation \<and>
   (\<exists>vs ws img. scan_interpolation_weights quarter_Delaunay quarter_config = Inr (vs, ws) \<and>
      scan_convert [[1, 2, 3, 4]] quarter_config vs ws = Inr img \<and> length img = 10 \<and>
      scan_convert [[1, 2], [3, 4]] quarter_config vs ws = Inr img)"
proof -
  from scan_convert_reads_flattened_data [where Delaunay = quarter_Delaunay
      and linear_data = "[[1, 2, 3, 4]]",
      OF quarter_config_valid quarter_keys quarter_Delaunay_points quarter_triangulation_ok]
  obtain vs ws where
    res: "scan_interpolation_weights quarter_Delaunay quarter_config = Inr (vs, ws)" and
    alt: "if \<forall>row \<in> set vs. \<forall>v \<in> set row. v < int (length (concat [[1 :: real, 2, 3, 4]]))
          then \<exists>img. scan_convert [[1, 2, 3, 4]] quarter_config vs ws = Inr img \<and>
                 length img = nat 10 \<and> (\<forall>row \<in> set img. length row = nat 10) \<and>
                 (\<forall>other. concat other = concat [[1, 2, 3, 4]] \<longrightarrow>
                    scan_convert other quarter_config vs ws = Inr img)
          else scan_convert [[1, 2, 3, 4]] quarter_config vs ws = Inl IndexError"
    by blast
  from res quarter_weights have
    "vs = map (\<lambda>p. simplices quarter_triangulation ! selected quarter_triangulation p)
            (pixel_grid 10)"
    by simp
  with quarter_vertices_in_range
  have "\<forall>row \<in> set vs. \<forall>v \<in> set row. v < int (length (concat [[1 :: real, 2, 3, 4]]))"
    by simp
  from alt [unfolded if_P [OF this]] obtain img where
    img: "scan_convert [[1, 2, 3, 4]] quarter_config vs ws = Inr img" "length img = nat 10"
      "\<forall>other. concat other = concat [[1, 2, 3, 4]] \<longrightarrow>
         scan_convert other quarter_config vs ws = Inr img"
    by blast
  from img(3) [rule_format, of "[[1, 2], [3, 4]]"]
  have "scan_convert [[1, 2], [3, 4]] quarter_config vs ws = Inr img" by simp
  with res img(1,2) show ?thesis
    by (simp add: quarter_config_valid quarter_Delaunay_points quarter_triangulation_ok)
qed

text \<open>
  Claim C7 as stated fails on the quarter sector, whose weights were built against a
  \<open>(2, 2)\<close> grid: the call with data of shape \<open>(1, 4)\<close> returns an image.
\<close>

theorem shape_mismatch_not_detected:
  "num_lines quarter_config = Some 2 \<and> num_samples_along_lines quarter_config = Some 2 \<and>
   (\<exists>vs ws img. scan_interpolation_weights quarter_Delaunay quarter_config = Inr (vs, ws) \<and>
      scan_convert [[1, 2, 3, 4]] quarter_config vs ws = Inr img \<and>
      scan_convert [[1, 2], [3, 4]] quarter_config vs ws = Inr img)"
proof -
  define vs where
    "vs = map (\<lambda>p. simplices quarter_triangulation ! selected quarter_triangulation p)
            (pixel_grid 10)"
  define ws where
    "ws = map (\<lambda>p. barycentric (transform quarter_triangulation ! selected quarter_triangulation p) p)
            (pixel_grid 10)"
  have res: "scan_interpolation_weights quarter_Delaunay quarter_config = Inr (vs, ws)"
    unfolding vs_def ws_def by (rule quarter_weights)
  have lv: "length vs = nat 10 * nat 10"
    by (simp add: vs_def)
  have l3: "length (barycentric (transform quarter_triangulation ! selected quarter_triangulation p) p) = 3"
    for p
    using weight_row [OF quarter_triangulation_ok, of p] by auto
  have shape: "map length vs = map length ws"
    by (simp add: vs_def ws_def comp_def l3 vertex_row [OF quarter_triangulation_ok])
  have flat: "\<forall>row \<in> set vs. \<forall>v \<in> set row. 0 \<le> v \<and> v < int (length (concat [[1 :: real, 2, 3, 4]]))"
    using quarter_vertices_in_range by (simp add: vs_def)
  have grid: "\<forall>row \<in> set vs. \<forall>v \<in> set row. 0 \<le> v \<and> v < int (length (concat [[1 :: real, 2], [3, 4]]))"
    using quarter_vertices_in_range by (simp add: vs_def)
  have ten: "(0 :: int) \<le> 10" by simp
  note a = scan_convert_shaped [OF quarter_keys(1) ten lv shape flat]
  note b = scan_convert_shaped [OF quarter_keys(1) ten lv shape grid]
  have "scan_convert [[1, 2, 3, 4]] quarter_config vs ws =
        scan_convert [[1, 2], [3, 4]] quarter_config vs ws"
    unfolding a b by simp
  moreover have "\<exists>img. scan_convert [[1, 2, 3, 4]] quarter_config vs ws = Inr img"
    unfolding a by blast
  ultimately show ?thesis
    using res by (auto simp: quarter_keys)
qed

section \<open>Properties of the frame path and of loading\<close>

text \<open>
  Claim C1 says that, with a configuration loaded, the model input is obtained by
  resampling the received frame. In the program the frame is replaced by an array of
  zeros before it is read, so the result is the same for any two frames, whatever
  \<open>map_coordinates\<close> and \<open>interpolate\<close> compute.
\<close>

theorem preprocess_input_discards_frame:
  "preprocess_input map_coordinates interpolate frame image_size (Some cfg) xc yc =
   preprocess_input map_coordinates interpolate other_frame image_size (Some cfg) xc yc"
  by (simp add: preprocess_input_def)

text \<open>Without a configuration the frame does reach the result.\<close>

lemma preprocess_input_without_config:
  "preprocess_input map_coordinates (\<lambda>t size mode. Inr t) [[[255]]] 256 None xc yc =
     Inr [[[[1]], [[1]], [[1]]]] \<and>
   preprocess_input map_coordinates (\<lambda>t size mode. Inr t) [[[0]]] 256 None xc yc =
     Inr [[[[0]], [[0]], [[0]]]]"
  by (simp add: preprocess_input_def subscript_def upt_conv_Cons eval_nat_numeral)

lemma inverse_missing_key:
  "scan_conversion_inverse cfg = Inl (KeyError (hd (missing_keys cfg))) \<or>
   scan_conversion_inverse cfg = Inl ValueError \<or>
   scan_conversion_inverse cfg = Inl IndexError \<or>
   ((\<exists>g. scan_conversion_inverse cfg = Inr g) \<and>
    (missing_keys cfg = [] \<or> missing_keys cfg = [''curvilinear_image_size'']))"
  by (auto simp: scan_conversion_inverse_def missing_keys_def linspace_def subscript_def Let_def
      meshgrid_def split: option.splits if_splits)


lemma weights_missing_size:
  assumes "curvilinear_image_size cfg = None"
  shows "scan_interpolation_weights Delaunay cfg = Inl (KeyError ''curvilinear_image_size'')"
  using assms by (simp add: scan_interpolation_weights_def)

lemma paint_empty [simp]: "paint region colour [] = []"
  by (simp add: paint_def)

lemma annulus_sector_nonpositive:
  assumes "curvilinear_image_size cfg = Some n" and "n \<le> 0"
  shows "\<exists>e. annulus_sector rast cfg = Inl e"
proof (cases "n < 0")
  case True
  with assms(1) show ?thesis
    by (auto simp: annulus_sector_def Let_def np_full_def bindE_def getitem_def
        split: option.splits sum.splits)
next
  case False
  with assms(2) have "n = 0" by simp
  with assms(1) show ?thesis
    by (auto simp: annulus_sector_def Let_def np_full_def bindE_def getitem_def
        cv2_ellipse_def cv2_circle_def clear_border_def split: option.splits sum.splits)
qed

lemma load_cases:
  "load_scanconversion Delaunay rast (Some cfg) =
     (case scan_conversion_inverse cfg of
        Inl e \<Rightarrow> Inl e
      | Inr g \<Rightarrow>
          (case scan_interpolation_weights Delaunay cfg of
             Inl e \<Rightarrow> Inl e
           | Inr w \<Rightarrow>
               (case curvilinear_mask rast cfg of
                  Inl e \<Rightarrow> Inl e
                | Inr m \<Rightarrow> Inr (Some \<lparr>x_cart = fst g, y_cart = snd g, vertices = fst w,
                                       weights = snd w, mask_array = m\<rparr>))))"
  by (simp add: load_scanconversion_def bindE_def split: sum.splits prod.splits)

text \<open>
  Claim C3, amended. Loading a configuration with a missing required key, or with a
  non-positive \<open>curvilinear_image_size\<close>, raises before the frame loop is entered.
  For a missing key the exception is the \<open>KeyError\<close> of the first missing key in
  reading order, unless an earlier read has already raised \<open>ValueError\<close> (a negative
  count) or \<open>IndexError\<close> (a centre with fewer than two entries).
\<close>

theorem load_fails_on_missing_key_or_size:
  assumes "missing_keys cfg \<noteq> [] \<or> (\<exists>n. curvilinear_image_size cfg = Some n \<and> n \<le> 0)"
  shows "\<exists>e. load_scanconversion Delaunay rast (Some cfg) = Inl e \<and>
           (missing_keys cfg = [] \<or> e = KeyError (hd (missing_keys cfg)) \<or>
            e = ValueError \<or> e = IndexError)"
proof (cases "missing_keys cfg = []")
  case True
  with assms obtain n where n: "curvilinear_image_size cfg = Some n" "n \<le> 0" by blast
  from annulus_sector_nonpositive [OF n] obtain e where "annulus_sector rast cfg = Inl e"
    by blast
  then have "curvilinear_mask rast cfg = Inl e"
    by (simp add: curvilinear_mask_def)
  then have "\<exists>e. load_scanconversion Delaunay rast (Some cfg) = Inl e"
    by (simp add: load_cases split: sum.splits)
  with True show ?thesis by blast
next
  case False
  from inverse_missing_key [of cfg] consider
    "scan_conversion_inverse cfg = Inl (KeyError (hd (missing_keys cfg)))"
    | "scan_conversion_inverse cfg = Inl ValueError"
    | "scan_conversion_inverse cfg = Inl IndexError"
    | g where "scan_conversion_inverse cfg = Inr g"
        "missing_keys cfg = [''curvilinear_image_size'']"
    using False by blast
  then show ?thesis
  proof cases
    case 4
    then have "curvilinear_image_size cfg = None"
      by (auto simp: missing_keys_def split: if_splits)
    from weights_missing_size [OF this, of Delaunay] 4
    have "load_scanconversion Delaunay rast (Some cfg) = Inl (KeyError (hd (missing_keys cfg)))"
      by (simp add: load_cases)
    then show ?thesis by blast
  qed (simp_all add: load_cases)
qed

text \<open>
  The quarter sector without \<open>radius_end_pixels\<close> fails with the \<open>KeyError\<close> of that
  key, and the quarter sector with image size 0 fails too.
\<close>

theorem load_fails_on_missing_key_or_size_witness:
  "missing_keys (quarter_config\<lparr>radius_end_pixels := None\<rparr>) = [''radius_end_pixels''] \<and>
   load_scanconversion quarter_Delaunay exact_rasteriser
     (Some (quarter_config\<lparr>radius_end_pixels := None\<rparr>)) = Inl (KeyError ''radius_end_pixels'') \<and>
   curvilinear_image_size (quarter_config\<lparr>curvilinear_image_size := Some 0\<rparr>) = Some 0 \<and>
   (\<exists>e. load_scanconversion quarter_Delaunay exact_rasteriser
      (Some (quarter_config\<lparr>curvilinear_image_size := Some 0\<rparr>)) = Inl e)"
proof -
  have "\<exists>n. curvilinear_image_size (quarter_config\<lparr>curvilinear_image_size := Some 0\<rparr>) = Some n \<and>
          n \<le> 0"
    by simp
  then have "\<exists>e. load_scanconversion quarter_Delaunay exact_rasteriser
      (Some (quarter_config\<lparr>curvilinear_image_size := Some 0\<rparr>)) = Inl e"
    using load_fails_on_missing_key_or_size
      [of "quarter_config\<lparr>curvilinear_image_size := Some 0\<rparr>" quarter_Delaunay exact_rasteriser]
    by blast
  then have z: "curvilinear_image_size (quarter_config\<lparr>curvilinear_image_size := Some 0\<rparr>) = Some 0 \<and>
   (\<exists>e. load_scanconversion quarter_Delaunay exact_rasteriser
      (Some (quarter_config\<lparr>curvilinear_image_size := Some 0\<rparr>)) = Inl e)"
    by simp
  have m: "missing_keys (quarter_config\<lparr>radius_end_pixels := None\<rparr>) = [''radius_end_pixels'']"
    by (simp add: missing_keys_def quarter_config_def)
  have "scan_conversion_inverse (quarter_config\<lparr>radius_end_pixels := None\<rparr>) =
          Inl (KeyError ''radius_end_pixels'')"
    by (simp add: scan_conversion_inverse_def quarter_config_def Let_def)
  then have "load_scanconversion quarter_Delaunay exact_rasteriser
     (Some (quarter_config\<lparr>radius_end_pixels := None\<rparr>)) = Inl (KeyError ''radius_end_pixels'')"
    by (simp add: load_cases)
  with m z load_fails_on_missing_key_or_size [of "quarter_config\<lparr>radius_end_pixels := None\<rparr>"
      quarter_Delaunay exact_rasteriser]
  show ?thesis by simp
qed


lemma annulus_sector_returns:
  assumes "angle_min_degrees cfg = Some a_min" and "angle_max_degrees cfg = Some a_max"
    and "radius_start_pixels cfg = Some r_start" and "radius_end_pixels cfg = Some r_end"
    and "center_coordinate_pixel cfg = Some [c0, c1]" and "curvilinear_image_size cfg = Some n"
    and "0 \<le> r_start" and "0 \<le> r_end" and "0 < n"
  shows "\<exists>m. annulus_sector rast cfg = Inr (n, m)"
proof -
  define ring where "ring = paint (circle_region rast (c1, c0) r_start (- 1)) 0
      (paint (ellipse_region rast (c1, c0) (r_end, r_end) 0 (90 + a_min) (90 + a_max) (- 1)) 1
         (replicate (nat n) (replicate (nat n) 0)))"
  have sq: "length ring = nat n" "\<forall>r<nat n. length (ring ! r) = nat n"
    by (simp_all add: ring_def)
  from assms(9) have pos: "0 < nat n" by simp
  from clear_border_square [OF sq pos] obtain m where "clear_border ring = Inr m"
    by blast
  with assms show ?thesis
    by (simp add: annulus_sector_def Let_def subscript_def np_full_def cv2_ellipse_def
        cv2_circle_def ring_def)
qed

lemma reversed_grid:
  "scan_conversion_inverse reversed_config = Inr ([[10, 2], [3, 2]], [[2, 10], [2, 3]])"
  by (simp add: scan_conversion_inverse_def reversed_config_def quarter_config_def linspace_def
      deg2rad_def meshgrid_def subscript_def upt_conv_Cons)

lemma reversed_triangulation_ok: "triangulation_ok 4 reversed_triangulation"
proof -
  have "- 1 \<le> locate 0 quarter_transform p \<and> locate 0 quarter_transform p < 2" for p
    using locate_range [of 0 quarter_transform p] by (auto simp: quarter_transform_def)
  then show ?thesis
    by (simp add: triangulation_ok_def reversed_triangulation_def)
      (simp add: quarter_transform_def)
qed

text \<open>
  Claim C3 as stated fails on the quarter sector with the radii exchanged
  (\<open>radius_end_pixels = 1 < radius_start_pixels = 8\<close>): every key is present and
  loading returns the five artefacts.
\<close>

theorem reversed_radii_are_loaded:
  "radius_start_pixels reversed_config = Some 8 \<and> radius_end_pixels reversed_config = Some 1 \<and>
   missing_keys reversed_config = [] \<and>
   (\<exists>a. load_scanconversion quarter_Delaunay exact_rasteriser (Some reversed_config) =
      Inr (Some a))"
proof -
  have keys: "angle_min_degrees reversed_config = Some 0"
    "angle_max_degrees reversed_config = Some 90"
    "radius_start_pixels reversed_config = Some 8" "radius_end_pixels reversed_config = Some 1"
    "center_coordinate_pixel reversed_config = Some [2, 2]"
    "curvilinear_image_size reversed_config = Some 10"
    by (simp_all add: reversed_config_def quarter_config_def)
  have none: "missing_keys reversed_config = []"
    by (simp add: missing_keys_def reversed_config_def quarter_config_def)
  have D: "quarter_Delaunay (vstack_T (concat [[10, 2], [3, 2]]) (concat [[2, 10], [2, 3]])) =
             Inr reversed_triangulation"
    by (simp add: vstack_T_def quarter_Delaunay_def)
  have ten: "(0 :: int) \<le> 10" by simp
  from weights_structure [where Delaunay = quarter_Delaunay, OF keys(6) reversed_grid D
      reversed_triangulation_ok ten]
  obtain w where w: "scan_interpolation_weights quarter_Delaunay reversed_config = Inr w"
    by blast
  from annulus_sector_returns [OF keys, of exact_rasteriser]
  obtain m where "annulus_sector exact_rasteriser reversed_config = Inr (10, m)"
    by auto
  moreover have "erosion_size 10 = 1"
    by (simp add: erosion_size_div)
  ultimately obtain mask where
    mask: "curvilinear_mask exact_rasteriser reversed_config = Inr mask"
    by (simp add: curvilinear_mask_def np_full_def)
  from reversed_grid w mask
  have "\<exists>a. load_scanconversion quarter_Delaunay exact_rasteriser (Some reversed_config) =
      Inr (Some a)"
    by (simp add: load_cases)
  with keys(3,4) none show ?thesis by blast
qed

end
